theory Spec2Isabelle
  imports Complex_Main "HOL-Library.Log_Nat"
begin

section \<open>Numbers\<close>

text \<open>
  The TypeScript sources compute with the JavaScript \<open>number\<close> type, IEEE 754 double
  precision. A value of that type is modelled by \<open>jsnum\<close>: a finite number, carried as
  the rational it denotes, one of the two infinities, or NaN. Negative zero is identified
  with zero. \<open>Num x\<close> is a value of the type when \<open>x\<close> is a double, that is when
  rounding leaves it unchanged (\<open>fl x = x\<close> below); a literal that is no double, such as
  \<open>1.67\<close>, denotes \<open>js_of (167 / 100)\<close>. Timestamps (\<open>Date.now()\<close>, milliseconds) are
  integers and are modelled as \<open>int\<close>.
\<close>

datatype jsnum = Num rat | PosInfinity | NegInfinity | NaN

text \<open>JavaScript truthiness of a number: \<open>0\<close> and NaN are falsy.\<close>

fun js_truthy :: "jsnum \<Rightarrow> bool" where
  "js_truthy (Num x) = (x \<noteq> 0)"
| "js_truthy PosInfinity = True"
| "js_truthy NegInfinity = True"
| "js_truthy NaN = False"

subsection \<open>Rounding to double precision\<close>

text \<open>
  The result of an arithmetic operation is the exact result rounded to the nearest double,
  ties to the even significand. \<open>binade x\<close> is the exponent \<open>e\<close> with
  \<open>2^e \<le> x < 2^(e+1)\<close> for a positive \<open>x\<close>; \<open>quantum x\<close> is the spacing of the doubles
  around \<open>x\<close> (53-bit significands, subnormal below \<open>2^-1022\<close>); \<open>fl x\<close> is \<open>x\<close>
  rounded to a multiple of that spacing. \<open>js_of x\<close> is the \<open>number\<close> an operation
  with exact result \<open>x\<close> yields: an infinity when the rounded value exceeds the largest
  double.
\<close>

definition binade :: "rat \<Rightarrow> int" where
  "binade x =
     (let (p, q) = quotient_of x;
          e = bitlen p - bitlen q
      in if x < 2 powi e then e - 1 else e)"

definition round_half_even :: "rat \<Rightarrow> int" where
  "round_half_even y =
     (let f = \<lfloor>y\<rfloor>; d = y - of_int f
      in if d < 1 / 2 then f else if 1 / 2 < d then f + 1 else if even f then f else f + 1)"

definition quantum :: "rat \<Rightarrow> rat" where
  "quantum x = 2 powi (max (binade \<bar>x\<bar>) (- 1022) - 52)"

definition fl :: "rat \<Rightarrow> rat" where
  "fl x = (if x = 0 then 0
           else sgn x * of_int (round_half_even (\<bar>x\<bar> / quantum x)) * quantum x)"

definition max_double :: rat where
  "max_double = (2 ^ 53 - 1) * 2 ^ 971"

definition js_of :: "rat \<Rightarrow> jsnum" where
  "js_of x =
     (if max_double < fl x then PosInfinity
      else if fl x < - max_double then NegInfinity
      else Num (fl x))"

subsection \<open>Arithmetic and comparison of numbers\<close>

text \<open>
  The operators \<open>+\<close>, \<open>-\<close>, \<open>*\<close>, \<open>/\<close>, \<open>Math.floor\<close>, \<open>Math.ceil\<close>,
  \<open>Math.min\<close>, \<open>Math.max\<close>, \<open><\<close> and \<open><=\<close> on numbers, as ECMAScript defines them:
  NaN is contagious and compares false with everything, \<open>Infinity - Infinity\<close>,
  \<open>0 * Infinity\<close>, \<open>0 / 0\<close> and \<open>Infinity / Infinity\<close> are NaN, and a non-zero number
  divided by zero is an infinity (a zero divisor being taken as \<open>+0\<close>).
\<close>

fun num_sign :: "jsnum \<Rightarrow> int" where
  "num_sign (Num a) = (if 0 < a then 1 else if a < 0 then - 1 else 0)"
| "num_sign PosInfinity = 1"
| "num_sign NegInfinity = - 1"
| "num_sign NaN = 0"

definition infinity_of_sign :: "int \<Rightarrow> jsnum" where
  "infinity_of_sign s = (if 0 < s then PosInfinity else if s < 0 then NegInfinity else NaN)"

fun num_neg :: "jsnum \<Rightarrow> jsnum" where
  "num_neg (Num a) = Num (- a)"
| "num_neg PosInfinity = NegInfinity"
| "num_neg NegInfinity = PosInfinity"
| "num_neg NaN = NaN"

fun num_add :: "jsnum \<Rightarrow> jsnum \<Rightarrow> jsnum" where
  "num_add (Num a) (Num b) = js_of (a + b)"
| "num_add NaN b = NaN"
| "num_add a NaN = NaN"
| "num_add PosInfinity NegInfinity = NaN"
| "num_add NegInfinity PosInfinity = NaN"
| "num_add PosInfinity b = PosInfinity"
| "num_add a PosInfinity = PosInfinity"
| "num_add NegInfinity b = NegInfinity"
| "num_add a NegInfinity = NegInfinity"

definition num_sub :: "jsnum \<Rightarrow> jsnum \<Rightarrow> jsnum" where
  "num_sub a b = num_add a (num_neg b)"

fun num_mul :: "jsnum \<Rightarrow> jsnum \<Rightarrow> jsnum" where
  "num_mul (Num a) (Num b) = js_of (a * b)"
| "num_mul NaN b = NaN"
| "num_mul a NaN = NaN"
| "num_mul a b = infinity_of_sign (num_sign a * num_sign b)"

fun num_quot :: "jsnum \<Rightarrow> jsnum \<Rightarrow> jsnum" where
  "num_quot (Num a) (Num b) =
     (if b = 0 then infinity_of_sign (num_sign (Num a)) else js_of (a / b))"
| "num_quot NaN b = NaN"
| "num_quot a NaN = NaN"
| "num_quot (Num a) b = Num 0"
| "num_quot a (Num b) = infinity_of_sign (num_sign a * (if b < 0 then - 1 else 1))"
| "num_quot a b = NaN"

fun num_floor :: "jsnum \<Rightarrow> jsnum" where
  "num_floor (Num a) = Num (of_int \<lfloor>a\<rfloor>)"
| "num_floor PosInfinity = PosInfinity"
| "num_floor NegInfinity = NegInfinity"
| "num_floor NaN = NaN"

fun num_ceil :: "jsnum \<Rightarrow> jsnum" where
  "num_ceil (Num a) = Num (of_int \<lceil>a\<rceil>)"
| "num_ceil PosInfinity = PosInfinity"
| "num_ceil NegInfinity = NegInfinity"
| "num_ceil NaN = NaN"

fun num_lt :: "jsnum \<Rightarrow> jsnum \<Rightarrow> bool" where
  "num_lt (Num a) (Num b) = (a < b)"
| "num_lt NaN b = False"
| "num_lt a NaN = False"
| "num_lt PosInfinity b = False"
| "num_lt a NegInfinity = False"
| "num_lt a b = True"

fun num_le :: "jsnum \<Rightarrow> jsnum \<Rightarrow> bool" where
  "num_le (Num a) (Num b) = (a \<le> b)"
| "num_le NaN b = False"
| "num_le a NaN = False"
| "num_le NegInfinity b = True"
| "num_le a PosInfinity = True"
| "num_le a b = False"

fun num_min :: "jsnum \<Rightarrow> jsnum \<Rightarrow> jsnum" where
  "num_min NaN b = NaN"
| "num_min a NaN = NaN"
| "num_min a b = (if num_le a b then a else b)"

fun num_max :: "jsnum \<Rightarrow> jsnum \<Rightarrow> jsnum" where
  "num_max NaN b = NaN"
| "num_max a NaN = NaN"
| "num_max a b = (if num_le a b then b else a)"

text \<open>
  The scalability monitor further down is modelled with exact rationals. Its divisions by
  a length use \<open>js_div\<close>, the quotient of two rationals as a \<open>number\<close> without
  rounding.
\<close>

definition js_div :: "rat \<Rightarrow> rat \<Rightarrow> jsnum" where
  "js_div a b =
     (if b \<noteq> 0 then Num (a / b)
      else if 0 < a then PosInfinity
      else if a < 0 then NegInfinity
      else NaN)"

section \<open>Token bucket (rateLimiter.ts)\<close>

record TokenBucketConfig =
  capacity :: jsnum
  refillRate :: jsnum
  keyPrefix :: "string option"

record TokenBucketState =
  tokens :: jsnum
  lastRefill :: int

text \<open>
  \<open>RateLimitStatus\<close> is \<open>Omit<RateLimitResult, 'allowed'>\<close>, the result type of
  \<open>getStatus\<close>; \<open>RateLimitResult\<close> adds the field \<open>allowed\<close>. An absent
  \<open>retryAfterSeconds\<close> (\<open>undefined\<close>) is \<open>None\<close>.
\<close>

record RateLimitStatus =
  remainingTokens :: jsnum
  retryAfterSeconds :: "jsnum option"
  resetTime :: jsnum

record RateLimitResult = RateLimitStatus +
  allowed :: bool

text \<open>The class \<open>TokenBucket\<close>: its private fields \<open>config\<close> and \<open>storage\<close>.\<close>

record TokenBucket =
  config :: TokenBucketConfig
  storage :: "string \<rightharpoonup> TokenBucketState"

text \<open>
  The constructor: \<open>{ keyPrefix: 'rate_limit', ...config }\<close> and an empty map. It
  performs no check of the configuration and cannot throw. \<open>keyPrefix = None\<close> is a
  configuration without the property; one that has the property with the value
  \<open>undefined\<close> is not modelled.
\<close>

definition TokenBucket_new :: "TokenBucketConfig \<Rightarrow> TokenBucket" where
  "TokenBucket_new cfg =
     \<lparr> config = cfg\<lparr> keyPrefix :=
                  Some (case keyPrefix cfg of None \<Rightarrow> ''rate_limit'' | Some p \<Rightarrow> p) \<rparr>,
       storage = Map.empty \<rparr>"

text \<open>The template string \<open>`${this.config.keyPrefix}:${key}`\<close>.\<close>

definition bucketKey :: "TokenBucketConfig \<Rightarrow> string \<Rightarrow> string" where
  "bucketKey cfg key =
     (case keyPrefix cfg of None \<Rightarrow> ''undefined'' | Some p \<Rightarrow> p) @ '':'' @ key"

text \<open>
  \<open>storage.get(bucketKey)\<close>, with a new bucket at full capacity when the key has no
  entry (lines 54-62 of \<open>consume\<close>, 112-119 of \<open>getStatus\<close>).
\<close>

definition lookup_bucket :: "TokenBucket \<Rightarrow> int \<Rightarrow> string \<Rightarrow> TokenBucketState" where
  "lookup_bucket tb now key =
     (case storage tb (bucketKey (config tb) key) of
        None \<Rightarrow> \<lparr> tokens = capacity (config tb), lastRefill = now \<rparr>
      | Some bucket \<Rightarrow> bucket)"

text \<open>
  \<open>Math.floor(timeDelta * refillRate)\<close> with \<open>timeDelta = (now - lastRefill) / 1000\<close>:
  the difference, the quotient and the product are each rounded to a double.
\<close>

definition tokensToAdd :: "TokenBucketConfig \<Rightarrow> int \<Rightarrow> TokenBucketState \<Rightarrow> jsnum" where
  "tokensToAdd cfg now bucket =
     num_floor
       (num_mul
          (num_quot (num_sub (Num (of_int now)) (Num (of_int (lastRefill bucket)))) (Num 1000))
          (refillRate cfg))"

text \<open>The refill step of \<open>consume\<close> (lines 64-74): state changes only under the guard.\<close>

definition refill :: "TokenBucketConfig \<Rightarrow> int \<Rightarrow> TokenBucketState \<Rightarrow> TokenBucketState" where
  "refill cfg now bucket =
     (if num_lt (Num 0) (tokensToAdd cfg now bucket)
      then bucket\<lparr> tokens := num_min (capacity cfg)
                                  (num_add (tokens bucket) (tokensToAdd cfg now bucket)),
                   lastRefill := now \<rparr>
      else bucket)"

text \<open>
  \<open>consume(key)\<close> at clock reading \<open>now\<close>. The method is \<open>async\<close> but contains no
  \<open>await\<close>, so its body runs without interleaving; it returns the result and the bucket
  object with the updated storage.
\<close>

definition consume :: "int \<Rightarrow> string \<Rightarrow> TokenBucket \<Rightarrow> RateLimitResult \<times> TokenBucket" where
  "consume now key tb =
     (let cfg = config tb;
          bucket = refill cfg now (lookup_bucket tb now key);
          ok = num_le (Num 1) (tokens bucket);
          bucket' = (if ok then bucket\<lparr> tokens := num_sub (tokens bucket) (Num 1) \<rparr> else bucket);
          retry = (if ok then None
                   else Some (num_ceil (num_quot (num_sub (Num 1) (tokens bucket'))
                                                 (refillRate cfg))));
          tokensNeeded = num_sub (capacity cfg) (tokens bucket');
          reset = num_add (Num (of_int now))
                    (num_mul (num_quot tokensNeeded (refillRate cfg)) (Num 1000))
      in (\<lparr> remainingTokens = tokens bucket', retryAfterSeconds = retry,
            resetTime = reset, allowed = ok \<rparr>,
          tb\<lparr> storage := (storage tb)(bucketKey cfg key \<mapsto> bucket') \<rparr>))"

text \<open>
  \<open>getStatus(key)\<close>: the same lookup and refill arithmetic on local variables only;
  the method contains no assignment to a bucket field and no \<open>storage.set\<close>, so the
  object it returns with the result is the one it was called on.
\<close>

definition getStatus :: "int \<Rightarrow> string \<Rightarrow> TokenBucket \<Rightarrow> RateLimitStatus \<times> TokenBucket" where
  "getStatus now key tb =
     (let cfg = config tb;
          bucket = lookup_bucket tb now key;
          currentTokens = num_min (capacity cfg)
                            (num_add (tokens bucket) (tokensToAdd cfg now bucket));
          tokensNeeded = num_sub (capacity cfg) currentTokens;
          reset = num_add (Num (of_int now))
                    (num_mul (num_quot tokensNeeded (refillRate cfg)) (Num 1000))
      in (\<lparr> remainingTokens = currentTokens,
            retryAfterSeconds =
              (if num_lt currentTokens (Num 1)
               then Some (num_ceil (num_quot (num_sub (Num 1) currentTokens) (refillRate cfg)))
               else None),
            resetTime = reset \<rparr>,
          tb))"

text \<open>
  A client that calls \<open>consume(key)\<close> \<open>n\<close> times in a row while the clock reads
  \<open>now\<close> (the loops of the test-suite under fake timers): the \<open>allowed\<close> flags in call
  order, and the bucket object afterwards.
\<close>

fun consume_times :: "nat \<Rightarrow> int \<Rightarrow> string \<Rightarrow> TokenBucket \<Rightarrow> bool list \<times> TokenBucket" where
  "consume_times 0 now key tb = ([], tb)"
| "consume_times (Suc n) now key tb =
     (let (r, tb') = consume now key tb;
          (rs, tb'') = consume_times n now key tb'
      in (allowed r # rs, tb''))"

text \<open>
  A history of a bucket object under a controllable clock (the fake timers of the
  test-suite): \<open>Consume key\<close> calls \<open>consume(key)\<close> at the current clock reading,
  \<open>Advance ms\<close> moves the clock forward by \<open>ms\<close> milliseconds.
\<close>

datatype operation = Consume string | Advance nat

fun step :: "operation \<Rightarrow> int \<times> TokenBucket \<Rightarrow> int \<times> TokenBucket" where
  "step (Consume key) (now, tb) = (now, snd (consume now key tb))"
| "step (Advance ms) (now, tb) = (now + int ms, tb)"

fun run :: "operation list \<Rightarrow> int \<times> TokenBucket \<Rightarrow> int \<times> TokenBucket" where
  "run [] s = s"
| "run (opn # ops) s = run ops (step opn s)"

text \<open>
  The bounds a stored bucket keeps under a configuration with the finite capacity
  \<open>cap\<close>: its token count is a double between \<open>0\<close> and \<open>cap\<close>. The last conjunct covers
  capacities below one token, where no request is ever granted and the bucket stays at
  \<open>cap\<close>.
\<close>

definition bucket_ok :: "rat \<Rightarrow> TokenBucketState \<Rightarrow> bool" where
  "bucket_ok cap b =
     (case tokens b of
        Num t \<Rightarrow> 0 \<le> t \<and> t \<le> cap \<and> fl t = t \<and> (cap < 1 \<longrightarrow> t = cap)
      | PosInfinity \<Rightarrow> False
      | NegInfinity \<Rightarrow> False
      | NaN \<Rightarrow> False)"

section \<open>Admission middleware (rateLimitMiddleware.ts)\<close>

text \<open>Exceptions: an \<open>Error\<close> with its message, and the \<open>RangeError\<close> of \<open>toISOString\<close>.\<close>

datatype js_error = Error string | RangeError string

text \<open>
  \<open>new Date(t)\<close>: the time value is clipped (ECMAScript \<open>TimeClip\<close>): a non-finite
  \<open>t\<close> or one beyond \<open>8.64e15\<close> ms gives an invalid date (\<open>None\<close>), otherwise the
  fraction is dropped. \<open>toISOString\<close> throws a \<open>RangeError\<close> on an invalid date; the
  ISO string of a valid date is represented by its time value.
\<close>

fun new_Date :: "jsnum \<Rightarrow> int option" where
  "new_Date (Num x) =
     (if \<bar>x\<bar> \<le> 8640000000000000 then Some (if 0 \<le> x then \<lfloor>x\<rfloor> else \<lceil>x\<rceil>) else None)"
| "new_Date PosInfinity = None"
| "new_Date NegInfinity = None"
| "new_Date NaN = None"

definition toISOString :: "int option \<Rightarrow> js_error + int" where
  "toISOString d = (case d of None \<Rightarrow> Inl (RangeError ''Invalid time value'') | Some t \<Rightarrow> Inr t)"

record RateLimitInfo =
  limit :: jsnum
  remaining :: jsnum
  reset :: "int option"
  retryAfter :: "jsnum option"

text \<open>
  The parts of the Express request and response objects that the middleware reads or
  writes. Header values are written with \<open>toString()\<close>; the model stores the number.
  \<open>body\<close> is the JSON payload sent with \<open>res.json\<close> (\<open>None\<close>: nothing sent).
\<close>

record Request =
  headers :: "string \<rightharpoonup> string"
  remoteAddress :: "string option"
  req_url :: string
  req_method :: string
  rateLimit :: "RateLimitInfo option"

record RejectionBody =
  body_error :: string
  body_message :: string
  retry_after_seconds :: jsnum
  body_limit :: jsnum
  reset_time :: int

record Response =
  res_headers :: "string \<rightharpoonup> jsnum"
  statusCode :: nat
  body :: "RejectionBody option"

text \<open>
  \<open>RateLimitConfig extends TokenBucketConfig\<close>. A callback may throw: the key generator
  returns the key or the exception; \<open>onLimitReached\<close> returns the response object as it
  left it and the exception, if it threw one.
\<close>

record RateLimitConfig = TokenBucketConfig +
  keyGenerator :: "(Request \<Rightarrow> js_error + string) option"
  skipFailedRequests :: "bool option"
  skipSuccessfulRequests :: "bool option"
  onLimitReached :: "(Request \<Rightarrow> Response \<Rightarrow> Response \<times> js_error option) option"

text \<open>\<open>a || d\<close> on an optional string: \<open>undefined\<close> and the empty string are falsy.\<close>

fun or_else :: "string option \<Rightarrow> string \<Rightarrow> string" where
  "or_else (Some (c # cs)) d = c # cs"
| "or_else (Some []) d = d"
| "or_else None d = d"

text \<open>The default key generator: the client address from the headers or the socket.\<close>

definition default_keyGenerator :: "Request \<Rightarrow> js_error + string" where
  "default_keyGenerator req =
     (let forwarded = headers req ''x-forwarded-for'';
          realIp = headers req ''x-real-ip'';
          clientIp = or_else (map_option (takeWhile (\<lambda>c. c \<noteq> CHR '','')) forwarded)
                       (or_else realIp (or_else (remoteAddress req) ''unknown''))
      in Inr clientIp)"

text \<open>
  The closure returned by \<open>createRateLimitMiddleware\<close>: the captured \<open>config\<close>, the
  captured \<open>bucket\<close> object (whose storage the handler updates) and \<open>keyGenerator\<close>.
\<close>

record Middleware =
  mw_config :: RateLimitConfig
  mw_bucket :: TokenBucket
  mw_keyGenerator :: "Request \<Rightarrow> js_error + string"

definition createRateLimitMiddleware :: "RateLimitConfig \<Rightarrow> Middleware" where
  "createRateLimitMiddleware cfg =
     \<lparr> mw_config = cfg,
       mw_bucket = TokenBucket_new
         \<lparr> capacity = capacity cfg, refillRate = refillRate cfg, keyPrefix = keyPrefix cfg \<rparr>,
       mw_keyGenerator = (case keyGenerator cfg of Some g \<Rightarrow> g | None \<Rightarrow> default_keyGenerator) \<rparr>"

text \<open>
  What one run of the handler leaves behind: the request and response objects, whether
  \<open>next()\<close> was called, and the console output (\<open>console.warn\<close> with the key,
  \<open>console.error\<close> with the exception).
\<close>

datatype log_entry = Warn string | LogError js_error

record Outcome =
  out_req :: Request
  out_res :: Response
  next_called :: bool
  logged :: "log_entry list"

text \<open>
  The handler (lines 110-167). Its \<open>try\<close> block covers the key generator, the awaited
  \<open>bucket.consume(key)\<close>, the optional callback and the construction of the 429 payload;
  the \<open>catch\<close> block logs and calls \<open>next()\<close>. The call of \<open>consume\<close> is a parameter
  \<open>consume_fn\<close> that may return an exception (a rejected promise), leaving the bucket
  as it was; \<open>rateLimitMiddleware\<close> below passes the method of the token bucket, which
  never throws. In \<open>res.status(429).json({...})\<close> the status is set before the payload
  is built, so an exception of \<open>toISOString\<close> is caught with the status already 429.
\<close>

definition rate_limit_handler ::
  "(int \<Rightarrow> string \<Rightarrow> TokenBucket \<Rightarrow> js_error + RateLimitResult \<times> TokenBucket) \<Rightarrow>
   int \<Rightarrow> Request \<Rightarrow> Response \<Rightarrow> Middleware \<Rightarrow> Outcome \<times> Middleware" where
  "rate_limit_handler consume_fn now req res mw =
     (let cfg = mw_config mw in
      case mw_keyGenerator mw req of
        Inl e \<Rightarrow>
          (\<lparr> out_req = req, out_res = res, next_called = True, logged = [LogError e] \<rparr>, mw)
      | Inr key \<Rightarrow>
         (case consume_fn now key (mw_bucket mw) of
            Inl e \<Rightarrow>
              (\<lparr> out_req = req, out_res = res, next_called = True, logged = [LogError e] \<rparr>, mw)
          | Inr (result, bucket') \<Rightarrow>
             (let mw' = mw\<lparr> mw_bucket := bucket' \<rparr>;
                  res1 = res\<lparr> res_headers := (res_headers res)
                           (''X-RateLimit-Limit'' \<mapsto> capacity cfg,
                            ''X-RateLimit-Remaining'' \<mapsto> num_max (Num 0) (remainingTokens result),
                            ''X-RateLimit-Reset'' \<mapsto>
                               num_ceil (num_quot (resetTime result) (Num 1000))) \<rparr>;
                  req1 = req\<lparr> rateLimit := Some
                           \<lparr> limit = capacity cfg,
                             remaining = num_max (Num 0) (remainingTokens result),
                             reset = new_Date (resetTime result),
                             retryAfter = retryAfterSeconds result \<rparr> \<rparr>
              in if \<not> allowed result then
                   (let res2 = (case retryAfterSeconds result of
                                  Some r \<Rightarrow> (if js_truthy r
                                             then res1\<lparr> res_headers :=
                                                    (res_headers res1)(''Retry-After'' \<mapsto> r) \<rparr>
                                             else res1)
                                | None \<Rightarrow> res1)
                    in case (case onLimitReached cfg of
                               None \<Rightarrow> (res2, None)
                             | Some callback \<Rightarrow> callback req1 res2) of
                         (res3, Some e) \<Rightarrow>
                           (\<lparr> out_req = req1, out_res = res3, next_called = True,
                              logged = [LogError e] \<rparr>, mw')
                       | (res3, None) \<Rightarrow>
                          (let res4 = res3\<lparr> statusCode := 429 \<rparr>
                           in case toISOString (new_Date (resetTime result)) of
                                Inl e \<Rightarrow>
                                  (\<lparr> out_req = req1, out_res = res4, next_called = True,
                                     logged = [Warn key, LogError e] \<rparr>, mw')
                              | Inr isoString \<Rightarrow>
                                  (\<lparr> out_req = req1,
                                     out_res = res4\<lparr> body := Some
                                       \<lparr> body_error = ''Rate limit exceeded'',
                                         body_message = ''Too many requests, please try again later'',
                                         retry_after_seconds =
                                           (case retryAfterSeconds result of
                                              Some r \<Rightarrow> (if js_truthy r then r else Num 60)
                                            | None \<Rightarrow> Num 60),
                                         body_limit = capacity cfg,
                                         reset_time = isoString \<rparr> \<rparr>,
                                     next_called = False, logged = [Warn key] \<rparr>, mw')))
                 else (\<lparr> out_req = req1, out_res = res1, next_called = True, logged = [] \<rparr>,
                       mw'))))"

text \<open>The handler as \<open>createRateLimitMiddleware\<close> builds it, with \<open>bucket.consume\<close>.\<close>

definition rateLimitMiddleware ::
  "int \<Rightarrow> Request \<Rightarrow> Response \<Rightarrow> Middleware \<Rightarrow> Outcome \<times> Middleware" where
  "rateLimitMiddleware = rate_limit_handler (\<lambda>now key tb. Inr (consume now key tb))"

text \<open>
  \<open>createConfiguredRateLimiter(overrides?)\<close>. The three values read from the
  environment are parameters: \<open>env_capacity\<close> is the number that \<open>parseInt\<close> yields for
  \<open>RATE_LIMIT_CAPACITY\<close> (NaN when the text is no number), \<open>env_refillRate\<close> the one
  that \<open>parseFloat\<close> yields for \<open>RATE_LIMIT_REFILL_RATE\<close>, \<open>env_keyPrefix\<close> the value of
  \<open>RATE_LIMIT_KEY_PREFIX\<close>; \<open>None\<close> stands for an unset or empty variable, for which
  the source falls back to \<open>'100'\<close>, \<open>'1.67'\<close> and \<open>'api_rate_limit'\<close> (\<open>1.67\<close> is the
  double nearest to \<open>167/100\<close>). \<open>Partial<RateLimitConfig>\<close> has every field optional,
  and \<open>...overrides\<close> replaces the fields that are present; a field present with the
  value \<open>undefined\<close>, which the type \<open>RateLimitConfig\<close> declared for the merged
  configuration excludes, is not modelled.
\<close>

record Environment =
  env_capacity :: "jsnum option"
  env_refillRate :: "jsnum option"
  env_keyPrefix :: "string option"

record PartialRateLimitConfig =
  p_capacity :: "jsnum option"
  p_refillRate :: "jsnum option"
  p_keyPrefix :: "string option"
  p_keyGenerator :: "(Request \<Rightarrow> js_error + string) option"
  p_skipFailedRequests :: "bool option"
  p_skipSuccessfulRequests :: "bool option"
  p_onLimitReached :: "(Request \<Rightarrow> Response \<Rightarrow> Response \<times> js_error option) option"

definition no_overrides :: PartialRateLimitConfig where
  "no_overrides =
     \<lparr> p_capacity = None, p_refillRate = None, p_keyPrefix = None, p_keyGenerator = None,
       p_skipFailedRequests = None, p_skipSuccessfulRequests = None, p_onLimitReached = None \<rparr>"

definition merged_config :: "Environment \<Rightarrow> PartialRateLimitConfig option \<Rightarrow> RateLimitConfig" where
  "merged_config env overrides =
     (let ov = (case overrides of None \<Rightarrow> no_overrides | Some v \<Rightarrow> v)
      in \<lparr> capacity = (case p_capacity ov of Some c \<Rightarrow> c
                        | None \<Rightarrow> (case env_capacity env of Some c \<Rightarrow> c | None \<Rightarrow> Num 100)),
           refillRate = (case p_refillRate ov of Some r \<Rightarrow> r
                        | None \<Rightarrow> (case env_refillRate env of Some r \<Rightarrow> r
                                   | None \<Rightarrow> js_of (167 / 100))),
           keyPrefix = (case p_keyPrefix ov of Some p \<Rightarrow> Some p
                        | None \<Rightarrow> Some (or_else (env_keyPrefix env) ''api_rate_limit'')),
           keyGenerator = p_keyGenerator ov,
           skipFailedRequests = p_skipFailedRequests ov,
           skipSuccessfulRequests = p_skipSuccessfulRequests ov,
           onLimitReached = p_onLimitReached ov \<rparr>)"

definition createConfiguredRateLimiter ::
  "Environment \<Rightarrow> PartialRateLimitConfig option \<Rightarrow> js_error + Middleware" where
  "createConfiguredRateLimiter env overrides =
     (let cfg = merged_config env overrides
      in if num_le (capacity cfg) (Num 0) \<or> num_le (refillRate cfg) (Num 0)
         then Inl (Error ''Rate limit capacity and refill rate must be positive numbers'')
         else Inr (createRateLimitMiddleware cfg))"

section \<open>Scalability monitor (scalabilityController.ts)\<close>

text \<open>
  One entry of \<open>requestMetrics\<close>: \<open>{ timestamp, responseTime, status }\<close>. The fields
  carry the prefix \<open>req_\<close> because \<open>responseTime\<close> and \<open>status\<close> are also fields of the
  metrics and assessment objects below.
\<close>

record RequestMetric =
  req_timestamp :: int
  req_responseTime :: rat
  req_status :: int

record ScalabilityMonitor =
  requestMetrics :: "RequestMetric list"
  startTime :: int
  activeConnections :: "string set"

text \<open>
  \<open>recordRequest(responseTime, statusCode, clientId?)\<close> at clock reading \<open>now\<close>, with
  the first two parameters named \<open>rtime\<close> and \<open>scode\<close>:
  \<open>push\<close>, the optional \<open>activeConnections.add\<close> (a truthy \<open>clientId\<close> is a non-empty
  string), the cap with \<open>slice(-5000)\<close>, which keeps the last 5000 entries, and
  \<open>cleanupOldConnections\<close>, which clears the set when the length is a multiple of 1000.
\<close>

definition recordRequest ::
  "int \<Rightarrow> rat \<Rightarrow> int \<Rightarrow> string option \<Rightarrow> ScalabilityMonitor \<Rightarrow> ScalabilityMonitor" where
  "recordRequest now rtime scode clientId mon =
     (let pushed = requestMetrics mon @
                     [\<lparr> req_timestamp = now, req_responseTime = rtime, req_status = scode \<rparr>];
          connections = (case clientId of
                           Some (c # cs) \<Rightarrow> insert (c # cs) (activeConnections mon)
                         | Some [] \<Rightarrow> activeConnections mon
                         | None \<Rightarrow> activeConnections mon);
          kept = (if length pushed > 10000 then drop (length pushed - 5000) pushed else pushed)
      in mon\<lparr> requestMetrics := kept,
              activeConnections := (if length kept mod 1000 = 0 then {} else connections) \<rparr>)"

record ResponseTimeStats =
  avg :: rat
  p95 :: rat
  p99 :: rat

record ThroughputStats =
  requestsPerSecond :: rat
  requestsPerMinute :: rat

record ErrorStats =
  rate :: rat
  count :: rat

record PerformanceMetrics =
  responseTime :: ResponseTimeStats
  throughput :: ThroughputStats
  errors :: ErrorStats

text \<open>The structure returned for an empty window (lines 162-166).\<close>

definition zero_PerformanceMetrics :: PerformanceMetrics where
  "zero_PerformanceMetrics =
     \<lparr> responseTime = \<lparr> avg = 0, p95 = 0, p99 = 0 \<rparr>,
       throughput = \<lparr> requestsPerSecond = 0, requestsPerMinute = 0 \<rparr>,
       errors = \<lparr> rate = 0, count = 0 \<rparr> \<rparr>"

text \<open>
  A division by a length, which may be zero: \<open>None\<close> stands for the non-finite result
  (Infinity or NaN) that JavaScript produces there.
\<close>

definition finite_div :: "rat \<Rightarrow> rat \<Rightarrow> rat option" where
  "finite_div a b = (case js_div a b of Num q \<Rightarrow> Some q | _ \<Rightarrow> None)"

text \<open>\<open>Math.round(x * 100) / 100\<close>; \<open>Math.round\<close> rounds halves up.\<close>

definition round2 :: "rat \<Rightarrow> rat" where
  "round2 x = of_int \<lfloor>x * 100 + 1 / 2\<rfloor> / 100"

text \<open>\<open>xs[i] || 0\<close>: an index past the end reads \<open>undefined\<close>, which is falsy.\<close>

definition nth_or_zero :: "rat list \<Rightarrow> nat \<Rightarrow> rat" where
  "nth_or_zero xs i = (if i < length xs then xs ! i else 0)"

text \<open>
  \<open>getPerformanceMetrics()\<close> at clock reading \<open>now\<close>. The result is \<open>None\<close> if one of
  the two divisions by a length had a zero divisor.
\<close>

definition getPerformanceMetrics :: "int \<Rightarrow> ScalabilityMonitor \<Rightarrow> PerformanceMetrics option" where
  "getPerformanceMetrics now mon =
     (let oneMinuteAgo = now - 60 * 1000;
          recentRequests = filter (\<lambda>req. req_timestamp req > oneMinuteAgo) (requestMetrics mon)
      in if length recentRequests = 0 then Some zero_PerformanceMetrics
         else
           (let responseTimes = sort (map req_responseTime recentRequests);
                p95Index = nat \<lfloor>of_nat (length responseTimes) * (95 / 100 :: rat)\<rfloor>;
                p99Index = nat \<lfloor>of_nat (length responseTimes) * (99 / 100 :: rat)\<rfloor>;
                requestsPerMinute = of_nat (length recentRequests);
                requestsPerSecond = requestsPerMinute / 60;
                errorRequests = filter (\<lambda>req. req_status req \<ge> 400) recentRequests
            in case finite_div (sum_list responseTimes) (of_nat (length responseTimes)) of
                 None \<Rightarrow> None
               | Some average \<Rightarrow>
                  (case finite_div (of_nat (length errorRequests)) (of_nat (length recentRequests)) of
                     None \<Rightarrow> None
                   | Some ratio \<Rightarrow>
                       Some \<lparr> responseTime =
                                \<lparr> avg = round2 average,
                                  p95 = round2 (nth_or_zero responseTimes p95Index),
                                  p99 = round2 (nth_or_zero responseTimes p99Index) \<rparr>,
                              throughput =
                                \<lparr> requestsPerSecond = round2 requestsPerSecond,
                                  requestsPerMinute = requestsPerMinute \<rparr>,
                              errors =
                                \<lparr> rate = round2 (ratio * 100),
                                  count = of_nat (length errorRequests) \<rparr> \<rparr>)))"

record DatabaseMetrics =
  databaseSize :: rat
  pageCount :: rat
  pageSize :: rat
  tableCount :: rat
  indexCount :: rat
  avgQueryTime :: rat

record MemoryStats =
  used :: rat
  free :: rat
  mem_total :: rat
  usage :: rat

record SystemMetrics =
  memory :: MemoryStats
  cpu_usage :: rat
  uptime :: rat

text \<open>
  The snapshot that \<open>getScalabilityMetrics\<close> hands to the assessment. Of its five
  parts the assessment reads \<open>database\<close>, \<open>performance\<close> and \<open>system\<close>; \<open>users\<close> and
  \<open>rateLimiting\<close> are not read and are left out.
\<close>

record ScalabilityMetrics =
  database :: DatabaseMetrics
  performance :: PerformanceMetrics
  system :: SystemMetrics

datatype health = green | yellow | red

record Assessment =
  status :: health
  score :: rat
  recommendations :: "string list"
  alerts :: "string list"

text \<open>
  \<open>getScalabilityAssessment\<close>, as a function of the metrics snapshot it awaits first.
  The running values \<open>score\<close>, \<open>recommendations\<close> and \<open>alerts\<close> are threaded through the
  five \<open>if / else if\<close> blocks in source order.
\<close>

type_synonym verdict = "rat \<times> string list \<times> string list"

definition assess_database :: "ScalabilityMetrics \<Rightarrow> verdict \<Rightarrow> verdict" where
  "assess_database metrics v =
     (case v of (sc, recs, als) \<Rightarrow>
        let dbSizeGB = databaseSize (database metrics) / (1024 * 1024 * 1024)
        in if dbSizeGB > 5
           then (sc - 30, recs @ [''Migrate to PostgreSQL immediately''],
                 als @ [''Database size exceeds 5GB - urgent migration needed''])
           else if dbSizeGB > 1
           then (sc - 15, recs @ [''Plan PostgreSQL migration within 2-3 months''],
                 als @ [''Database size exceeds 1GB - plan migration''])
           else (sc, recs, als))"

definition assess_response_time :: "ScalabilityMetrics \<Rightarrow> verdict \<Rightarrow> verdict" where
  "assess_response_time metrics v =
     (case v of (sc, recs, als) \<Rightarrow>
        if p95 (responseTime (performance metrics)) > 500
        then (sc - 25, recs @ [''Optimize database queries and add caching''],
              als @ [''95th percentile response time > 500ms''])
        else if p95 (responseTime (performance metrics)) > 200
        then (sc - 10, recs @ [''Consider query optimization and indexing''], als)
        else (sc, recs, als))"

definition assess_throughput :: "ScalabilityMetrics \<Rightarrow> verdict \<Rightarrow> verdict" where
  "assess_throughput metrics v =
     (case v of (sc, recs, als) \<Rightarrow>
        if requestsPerSecond (throughput (performance metrics)) > 500
        then (sc - 20, recs @ [''Implement read replicas or migrate to PostgreSQL''],
              als @ [''High request rate detected - SQLite limits approaching''])
        else if requestsPerSecond (throughput (performance metrics)) > 100
        then (sc - 5, recs @ [''Monitor request patterns and consider caching''], als)
        else (sc, recs, als))"

definition assess_error_rate :: "ScalabilityMetrics \<Rightarrow> verdict \<Rightarrow> verdict" where
  "assess_error_rate metrics v =
     (case v of (sc, recs, als) \<Rightarrow>
        if rate (errors (performance metrics)) > 5
        then (sc - 25, recs @ [''Investigate error causes and add monitoring''],
              als @ [''High error rate detected''])
        else if rate (errors (performance metrics)) > 1
        then (sc - 10, recs @ [''Monitor error patterns''], als)
        else (sc, recs, als))"

definition assess_memory :: "ScalabilityMetrics \<Rightarrow> verdict \<Rightarrow> verdict" where
  "assess_memory metrics v =
     (case v of (sc, recs, als) \<Rightarrow>
        if usage (memory (system metrics)) > 90
        then (sc - 20, recs @ [''Increase server memory or optimize application''],
              als @ [''High memory usage - scale vertically''])
        else if usage (memory (system metrics)) > 80
        then (sc - 5, recs @ [''Monitor memory trends''], als)
        else (sc, recs, als))"

definition getScalabilityAssessment :: "ScalabilityMetrics \<Rightarrow> Assessment" where
  "getScalabilityAssessment metrics =
     (case assess_memory metrics
             (assess_error_rate metrics
               (assess_throughput metrics
                 (assess_response_time metrics
                   (assess_database metrics (100, [], []))))) of
        (sc, recs, als) \<Rightarrow>
          \<lparr> status = (if sc \<ge> 80 then green else if sc \<ge> 60 then yellow else red),
            score = max 0 sc,
            recommendations = recs,
            alerts = als \<rparr>)"

text \<open>
  The scoring rule in the words of the specification, for comparison with the source:
  every rule whose threshold is exceeded fires, also both rules of one metric, and the
  result is clamped to \<open>[0, 100]\<close>.
\<close>

definition spec_score :: "ScalabilityMetrics \<Rightarrow> rat" where
  "spec_score metrics =
     (let dbSizeGB = databaseSize (database metrics) / (1024 * 1024 * 1024);
          p = p95 (responseTime (performance metrics));
          rps = requestsPerSecond (throughput (performance metrics));
          err = rate (errors (performance metrics));
          mem = usage (memory (system metrics))
      in max 0 (min 100
           (100 - (if dbSizeGB > 1 then 15 else 0) - (if dbSizeGB > 5 then 30 else 0)
                - (if p > 200 then 10 else 0) - (if p > 500 then 25 else 0)
                - (if rps > 100 then 5 else 0) - (if rps > 500 then 20 else 0)
                - (if err > 1 then 10 else 0) - (if err > 5 then 25 else 0)
                - (if mem > 80 then 5 else 0) - (if mem > 90 then 20 else 0))))"

text \<open>
  A snapshot of an idle system: the all-zero database metrics that
  \<open>getDatabaseMetrics\<close> returns in its \<open>catch\<close> branch, the all-zero performance
  metrics of an empty window, and no memory in use.
\<close>

definition zero_DatabaseMetrics :: DatabaseMetrics where
  "zero_DatabaseMetrics =
     \<lparr> databaseSize = 0, pageCount = 0, pageSize = 0, tableCount = 0, indexCount = 0,
       avgQueryTime = 0 \<rparr>"

definition idle_metrics :: ScalabilityMetrics where
  "idle_metrics =
     \<lparr> database = zero_DatabaseMetrics,
       performance = zero_PerformanceMetrics,
       system = \<lparr> memory = \<lparr> used = 0, free = 0, mem_total = 0, usage = 0 \<rparr>,
                  cpu_usage = 0, uptime = 0 \<rparr> \<rparr>"

section \<open>Properties of rounding to double precision\<close>

lemma binade_bounds:
  assumes "0 < x"
  shows "2 powi binade x \<le> x" and "x < 2 powi (binade x + 1)"
proof -
  obtain p q where pq: "quotient_of x = (p, q)" by (cases "quotient_of x")
  have q: "0 < q" using pq by (rule quotient_of_denom_pos)
  have x: "x = of_int p / of_int q" using pq by (rule quotient_of_div)
  have p: "0 < p" using assms q x by (simp add: zero_less_divide_iff)
  let ?e = "bitlen p - bitlen q"
  have bp: "1 \<le> bitlen p" "1 \<le> bitlen q"
    using p q by (auto simp: bitlen_alt_def)
  have "p < 2 ^ nat (bitlen p)" using bitlen_bounds [OF p] by simp
  then have "(of_int p :: rat) < of_int (2 ^ nat (bitlen p))" by (simp only: of_int_less_iff)
  then have pu: "(of_int p :: rat) < 2 powi bitlen p"
    using bp by (simp add: power_int_nonneg_exp)
  have "2 ^ nat (bitlen p - 1) \<le> p" using bitlen_bounds [OF p] by simp
  then have "(of_int (2 ^ nat (bitlen p - 1)) :: rat) \<le> of_int p" by (simp only: of_int_le_iff)
  then have pl: "2 powi (bitlen p - 1) \<le> (of_int p :: rat)"
    using bp by (simp add: power_int_nonneg_exp)
  have "q < 2 ^ nat (bitlen q)" using bitlen_bounds [OF q] by simp
  then have "(of_int q :: rat) < of_int (2 ^ nat (bitlen q))" by (simp only: of_int_less_iff)
  then have qu: "(of_int q :: rat) < 2 powi bitlen q"
    using bp by (simp add: power_int_nonneg_exp)
  have "2 ^ nat (bitlen q - 1) \<le> q" using bitlen_bounds [OF q] by simp
  then have "(of_int (2 ^ nat (bitlen q - 1)) :: rat) \<le> of_int q" by (simp only: of_int_le_iff)
  then have ql: "2 powi (bitlen q - 1) \<le> (of_int q :: rat)"
    using bp by (simp add: power_int_nonneg_exp)
  have qpos: "0 < (of_int q :: rat)" using q by simp
  have xq: "x * of_int q = of_int p" using x q by simp
  have lo: "2 powi (?e - 1) < x"
  proof -
    have "2 powi (?e - 1) * of_int q < 2 powi (?e - 1) * (2 powi bitlen q :: rat)"
      using qu by simp
    also have "\<dots> = 2 powi (bitlen p - 1)"
      by (simp add: power_int_add [symmetric])
    also have "\<dots> \<le> x * of_int q" using pl xq by simp
    finally show ?thesis using qpos by simp
  qed
  have hi: "x < 2 powi (?e + 1)"
  proof -
    have "x * of_int q < 2 powi bitlen p" using pu xq by simp
    also have "\<dots> = 2 powi (?e + 1) * (2 powi (bitlen q - 1) :: rat)"
      by (simp add: power_int_add [symmetric])
    also have "\<dots> \<le> 2 powi (?e + 1) * of_int q"
      using ql by simp
    finally show ?thesis using qpos by simp
  qed
  have b: "binade x = (if x < 2 powi ?e then ?e - 1 else ?e)"
    by (simp add: binade_def pq Let_def)
  show "2 powi binade x \<le> x" using lo by (simp add: b)
  show "x < 2 powi (binade x + 1)" using hi by (simp add: b)
qed

lemma round_half_even_ge: "of_int n \<le> y \<Longrightarrow> n \<le> round_half_even y"
proof -
  assume "of_int n \<le> y"
  then have "n \<le> \<lfloor>y\<rfloor>" by (simp add: le_floor_iff)
  then show ?thesis by (auto simp: round_half_even_def Let_def)
qed

lemma round_half_even_le: "y \<le> of_int n \<Longrightarrow> round_half_even y \<le> n"
proof -
  assume a: "y \<le> of_int n"
  show ?thesis
  proof (cases "y = of_int n")
    case True
    then show ?thesis by (simp add: round_half_even_def)
  next
    case False
    with a have "y < of_int n" by simp
    then have "\<lfloor>y\<rfloor> < n" by (simp add: floor_less_iff)
    then show ?thesis by (auto simp: round_half_even_def Let_def)
  qed
qed

lemma round_half_even_of_int [simp]: "round_half_even (of_int n) = n"
  by (simp add: round_half_even_def)


lemma pow2_less_imp: "(2::rat) powi a < 2 powi b \<Longrightarrow> a < b"
proof (rule ccontr)
  assume l: "(2::rat) powi a < 2 powi b" and "\<not> a < b"
  then have "b \<le> a" by simp
  then have "(2::rat) powi b \<le> 2 powi a" by (rule power_int_increasing) simp
  with l show False by simp
qed

lemma pow2_split: "k \<le> e \<Longrightarrow> (2::rat) powi e = 2 powi k * 2 ^ nat (e - k)"
proof -
  assume ke: "k \<le> e"
  have "(2::rat) powi e = 2 powi (k + (e - k))" by simp
  also have "\<dots> = 2 powi k * 2 powi (e - k)" by (rule power_int_add) simp
  also have "(2::rat) powi (e - k) = 2 ^ nat (e - k)"
    using ke by (intro power_int_nonneg_exp) simp
  finally show ?thesis .
qed

lemma quantum_pos: "0 < quantum x"
  by (simp add: quantum_def)

lemma fl_multiple:
  assumes "x \<noteq> 0" and "\<bar>x\<bar> = of_int n * quantum x"
  shows "fl x = x"
proof -
  have "\<bar>x\<bar> / quantum x = of_int n" using assms(2) quantum_pos [of x] by simp
  then have "fl x = sgn x * (of_int n * quantum x)"
    using assms(1) by (simp add: fl_def)
  then show ?thesis by (simp add: assms(2) [symmetric] mult_sgn_abs)
qed

lemma fl_representable_lt:
  assumes x: "x = of_int m * 2 powi e" and m: "\<bar>m\<bar> < 2 ^ 53" and e: "- 1074 \<le> e"
  shows "fl x = x"
proof (cases "x = 0")
  case True
  then show ?thesis by (simp add: fl_def)
next
  case False
  let ?b = "binade \<bar>x\<bar>"
  let ?k = "max ?b (- 1022) - 52"
  have ax: "\<bar>x\<bar> = of_int \<bar>m\<bar> * 2 powi e"
    by (simp add: x abs_mult power_int_abs)
  have "(of_int \<bar>m\<bar> :: rat) < of_int (2 ^ 53)" using m by (simp only: of_int_less_iff)
  then have "(of_int \<bar>m\<bar> :: rat) * 2 powi e < 2 ^ 53 * 2 powi e" by simp
  also have "\<dots> = 2 powi (e + 53)" by (simp add: power_int_add)
  finally have up: "\<bar>x\<bar> < 2 powi (e + 53)" by (simp only: ax)
  have "2 powi ?b \<le> \<bar>x\<bar>" using False by (intro binade_bounds) simp
  with up have "(2::rat) powi ?b < 2 powi (e + 53)" by simp
  then have "?b < e + 53" by (rule pow2_less_imp)
  with e have ke: "?k \<le> e" by simp
  have "\<bar>x\<bar> = of_int \<bar>m\<bar> * (2 powi ?k * 2 ^ nat (e - ?k))"
    using pow2_split [OF ke] by (simp only: ax)
  also have "\<dots> = of_int (\<bar>m\<bar> * 2 ^ nat (e - ?k)) * quantum x"
    by (simp add: quantum_def)
  finally show ?thesis using False by (rule fl_multiple [rotated])
qed

lemma fl_representable:
  assumes x: "x = of_int m * 2 powi e" and m: "\<bar>m\<bar> \<le> 2 ^ 53" and e: "- 1074 \<le> e"
  shows "fl x = x"
proof (cases "\<bar>m\<bar> < 2 ^ 53")
  case True
  with x e show ?thesis by (intro fl_representable_lt [of x m e]) simp_all
next
  case False
  with m have am: "\<bar>m\<bar> = 2 ^ 53" by simp
  then have "m = 2 ^ 53 \<or> m = - (2 ^ 53)" by (auto simp: abs_if split: if_splits)
  then have md: "m = 2 * (m div 2) \<and> \<bar>m div 2\<bar> < 2 ^ 53" by (elim disjE) simp_all
  then have "m = 2 * (m div 2)" by simp
  then have "(of_int m :: rat) = of_int (m div 2) * 2" by (metis of_int_mult of_int_numeral mult.commute)
  then have "x = of_int (m div 2) * (2 * 2 powi e)" by (simp add: x)
  also have "2 * (2::rat) powi e = 2 powi (e + 1)" by (simp add: power_int_add)
  finally have x': "x = of_int (m div 2) * 2 powi (e + 1)" .
  have "\<bar>m div 2\<bar> < 2 ^ 53" using md by simp
  with x' e show ?thesis by (intro fl_representable_lt [of x "m div 2" "e + 1"]) simp_all
qed

lemma fl_of_int: "\<bar>k\<bar> \<le> 2 ^ 53 \<Longrightarrow> fl (of_int k) = of_int k"
  using fl_representable [of "of_int k" k 0] by simp


lemma pow2_le_imp: "(2::rat) powi a \<le> 2 powi b \<Longrightarrow> a \<le> b"
proof (rule ccontr)
  assume l: "(2::rat) powi a \<le> 2 powi b" and "\<not> a \<le> b"
  then have "b < a" by simp
  then have "(2::rat) powi b < 2 powi a" by (rule power_int_strict_increasing) simp
  with l show False by simp
qed

lemma fl_pos: "0 < x \<Longrightarrow> fl x = of_int (round_half_even (x / quantum x)) * quantum x"
  by (simp add: fl_def)

lemma fl_neg: "x < 0 \<Longrightarrow> fl x = - fl (- x)"
  by (simp add: fl_def quantum_def)

lemma fl_zero [simp]: "fl 0 = 0"
  by (simp add: fl_def)

lemma fl_nonneg: "0 \<le> x \<Longrightarrow> 0 \<le> fl x"
proof (cases "x = 0")
  case False
  assume "0 \<le> x"
  with False have x: "0 < x" by simp
  have "of_int 0 \<le> x / quantum x" using x quantum_pos [of x] by simp
  then have "0 \<le> round_half_even (x / quantum x)" by (rule round_half_even_ge)
  then show ?thesis using quantum_pos [of x] by (simp add: fl_pos [OF x])
qed simp

lemma below_quantum:
  assumes "0 < x"
  shows "x < 2 ^ 53 * quantum x"
proof -
  have "x < 2 powi (binade x + 1)" using assms by (rule binade_bounds)
  also have "(2::rat) powi (binade x + 1) \<le> 2 powi (max (binade x) (- 1022) + 1)"
    by (rule power_int_increasing) simp_all
  also have "max (binade x) (- 1022) + 1 = 53 + (max (binade x) (- 1022) - 52)" by simp
  also have "(2::rat) powi (53 + (max (binade x) (- 1022) - 52)) = 2 powi 53 * 2 powi (max (binade x) (- 1022) - 52)"
    by (rule power_int_add) simp
  finally show ?thesis using assms by (simp add: quantum_def)
qed

lemma mantissa_bounds:
  assumes "0 < x"
  shows "0 \<le> round_half_even (x / quantum x)" and "round_half_even (x / quantum x) \<le> 2 ^ 53"
proof -
  have "of_int 0 \<le> x / quantum x" using assms quantum_pos [of x] by simp
  then show "0 \<le> round_half_even (x / quantum x)" by (rule round_half_even_ge)
  have "x / quantum x \<le> 2 ^ 53"
    using below_quantum [OF assms] quantum_pos [of x] by (simp add: pos_divide_le_eq)
  then have "x / quantum x \<le> of_int (2 ^ 53)" by simp
  then show "round_half_even (x / quantum x) \<le> 2 ^ 53" by (rule round_half_even_le)
qed

lemma fl_idem_pos:
  assumes "0 < x"
  shows "fl (fl x) = fl x"
proof (rule fl_representable)
  show "fl x = of_int (round_half_even (x / quantum x)) * 2 powi (max (binade \<bar>x\<bar>) (- 1022) - 52)"
    using assms by (simp add: fl_pos quantum_def)
  show "\<bar>round_half_even (x / quantum x)\<bar> \<le> 2 ^ 53"
    using mantissa_bounds [OF assms] by simp
  show "- 1074 \<le> max (binade \<bar>x\<bar>) (- 1022) - 52" by simp
qed

lemma fl_idem: "fl (fl x) = fl x"
proof -
  consider "x = 0" | "0 < x" | "x < 0" by linarith
  then show ?thesis
  proof cases
    case 1
    then show ?thesis by simp
  next
    case 2
    then show ?thesis by (rule fl_idem_pos)
  next
    case 3
    then have p: "0 < - x" by simp
    have nn: "0 \<le> fl (- x)" using p by (intro fl_nonneg) simp
    have "fl (- fl (- x)) = - fl (fl (- x))"
    proof (cases "fl (- x) = 0")
      case True
      then show ?thesis by simp
    next
      case False
      with nn have "- fl (- x) < 0" by simp
      then show ?thesis by (simp add: fl_neg)
    qed
    then show ?thesis by (simp add: fl_neg [OF 3] fl_idem_pos [OF p])
  qed
qed

lemma binade_mono:
  assumes "0 < y" and "y \<le> t"
  shows "binade y \<le> binade t"
proof -
  have "2 powi binade y \<le> y" using assms(1) by (rule binade_bounds)
  also have "y \<le> t" by fact
  also have "t < 2 powi (binade t + 1)" using assms by (intro binade_bounds) simp
  finally have "binade y < binade t + 1" by (rule pow2_less_imp)
  then show ?thesis by simp
qed

lemma fl_le_double:
  assumes "0 \<le> y" and "y \<le> t" and "fl t = t"
  shows "fl y \<le> t"
proof (cases "y = 0")
  case True
  with assms show ?thesis by simp
next
  case False
  with assms have y: "0 < y" and t: "0 < t" by simp_all
  let ?ky = "max (binade y) (- 1022) - 52"
  let ?kt = "max (binade t) (- 1022) - 52"
  define n where "n = round_half_even (t / quantum t)"
  define j where "j = nat (?kt - ?ky)"
  have k: "?ky \<le> ?kt" using binade_mono [OF y assms(2)] by simp
  have qy: "quantum y = 2 powi ?ky" using y by (simp add: quantum_def)
  have qt: "quantum t = 2 powi ?kt" using t by (simp add: quantum_def)
  have tn: "t = of_int n * quantum t" using fl_pos [OF t] assms(3) by (simp add: n_def)
  have qq: "quantum t = quantum y * 2 ^ j"
    using pow2_split [OF k] by (simp only: qy qt j_def)
  have tt: "t = of_int (n * 2 ^ j) * quantum y"
  proof -
    have "of_int n * quantum t = of_int (n * 2 ^ j) * quantum y" by (simp add: qq)
    with tn show ?thesis by simp
  qed
  have "y / quantum y \<le> t / quantum y"
    using assms(2) quantum_pos [of y] by (simp add: divide_right_mono)
  also have "t / quantum y = of_int (n * 2 ^ j)"
  proof -
    have "of_int (n * 2 ^ j) * quantum y / quantum y = (of_int (n * 2 ^ j) :: rat)"
      using quantum_pos [of y] by simp
    then show ?thesis by (simp only: tt [symmetric])
  qed
  finally have "round_half_even (y / quantum y) \<le> n * 2 ^ j"
    by (rule round_half_even_le)
  then have "(of_int (round_half_even (y / quantum y)) :: rat) \<le> of_int (n * 2 ^ j)"
    by (simp only: of_int_le_iff)
  then have "of_int (round_half_even (y / quantum y)) * quantum y
               \<le> of_int (n * 2 ^ j) * quantum y"
    using quantum_pos [of y] by (simp only: mult_le_cancel_right_pos)
  then show ?thesis by (simp only: fl_pos [OF y] tt [symmetric])
qed

lemma fl_ge_one:
  assumes "1 \<le> x"
  shows "1 \<le> fl x"
proof -
  have x: "0 < x" using assms by simp
  let ?k = "max (binade x) (- 1022) - 52"
  have q: "quantum x = 2 powi ?k" using x by (simp add: quantum_def)
  have "(2::rat) powi 0 \<le> x" using assms by simp
  also have "x < 2 powi (binade x + 1)" using x by (rule binade_bounds)
  finally have "0 < binade x + 1" by (rule pow2_less_imp)
  then have b: "0 \<le> binade x" by simp
  show ?thesis
  proof (cases "?k \<le> 0")
    case True
    have one: "1 = of_int (2 ^ nat (0 - ?k)) * quantum x"
      using pow2_split [OF True] by (simp add: q mult.commute)
    have "of_int (2 ^ nat (0 - ?k)) * quantum x \<le> x" using assms by (simp only: one [symmetric])
    then have "of_int (2 ^ nat (0 - ?k)) \<le> x / quantum x"
      using quantum_pos [of x] by (simp add: pos_le_divide_eq)
    then have "2 ^ nat (0 - ?k) \<le> round_half_even (x / quantum x)"
      by (rule round_half_even_ge)
    then have "(of_int (2 ^ nat (0 - ?k)) :: rat) \<le> of_int (round_half_even (x / quantum x))"
      by (simp only: of_int_le_iff)
    then have "of_int (2 ^ nat (0 - ?k)) * quantum x
                 \<le> of_int (round_half_even (x / quantum x)) * quantum x"
      using quantum_pos [of x] by (simp only: mult_le_cancel_right_pos)
    then show ?thesis by (simp only: fl_pos [OF x] one [symmetric])
  next
    case False
    then have "(2::rat) powi 0 \<le> 2 powi ?k" by (intro power_int_increasing) simp_all
    then have q1: "1 \<le> quantum x" by (simp add: q)
    have "quantum x \<le> x" using q1 assms
    proof -
      have "(2::rat) powi ?k \<le> 2 powi binade x" using b by (intro power_int_increasing) simp_all
      also have "\<dots> \<le> x" using x by (rule binade_bounds)
      finally show ?thesis by (simp add: q)
    qed
    then have "of_int 1 \<le> x / quantum x"
      using quantum_pos [of x] by (simp add: pos_le_divide_eq)
    then have "1 \<le> round_half_even (x / quantum x)" by (rule round_half_even_ge)
    then have "(1::rat) \<le> of_int (round_half_even (x / quantum x))" by simp
    then have "1 * 1 \<le> of_int (round_half_even (x / quantum x)) * quantum x"
      using q1 by (intro mult_mono) simp_all
    then show ?thesis by (simp add: fl_pos [OF x])
  qed
qed


lemma fl_sub_one:
  assumes "fl t = t" and "1 \<le> t" and "t \<le> 2 ^ 53"
  shows "fl (t - 1) = t - 1"
proof -
  have t: "0 < t" using assms(2) by simp
  let ?k = "max (binade t) (- 1022) - 52"
  define n where "n = round_half_even (t / quantum t)"
  have q: "quantum t = 2 powi ?k" using t by (simp add: quantum_def)
  have tn: "t = of_int n * quantum t" using fl_pos [OF t] assms(1) by (simp add: n_def)
  have n: "0 \<le> n" "n \<le> 2 ^ 53" using mantissa_bounds [OF t] by (simp_all add: n_def)
  show ?thesis
  proof (cases "?k \<le> 0")
    case True
    define j where "j = nat (0 - ?k)"
    have one: "1 = of_int (2 ^ j) * quantum t"
      using pow2_split [OF True] by (simp add: q mult.commute j_def)
    have "of_int (2 ^ j) * quantum t \<le> of_int n * quantum t"
      using assms(2) tn by (simp only: one [symmetric])
    then have "(of_int (2 ^ j) :: rat) \<le> of_int n"
      using quantum_pos [of t] by (simp only: mult_le_cancel_right_pos)
    then have j: "2 ^ j \<le> n" by (simp only: of_int_le_iff)
    have "of_int n * quantum t - of_int (2 ^ j) * quantum t = of_int (n - 2 ^ j) * 2 powi ?k"
      by (simp add: q algebra_simps)
    then have "t - 1 = of_int (n - 2 ^ j) * 2 powi ?k"
      by (simp only: tn [symmetric] one [symmetric])
    moreover have "\<bar>n - 2 ^ j\<bar> \<le> 2 ^ 53"
    proof -
      have "(0::int) \<le> 2 ^ j" by simp
      with j n show ?thesis by linarith
    qed
    moreover have "- 1074 \<le> ?k" by simp
    ultimately show ?thesis by (rule fl_representable)
  next
    case False
    then have "(2::rat) powi 53 \<le> 2 powi binade t" by (intro power_int_increasing) simp_all
    also have "\<dots> \<le> t" using t by (rule binade_bounds)
    finally have "t = 2 ^ 53" using assms(3) by simp
    then have "t - 1 = of_int (2 ^ 53 - 1)" by simp
    then show ?thesis using fl_of_int [of "2 ^ 53 - 1"] by simp
  qed
qed

lemma max_double_ge: "2 ^ 53 \<le> max_double"
  by (simp add: max_double_def)

lemma js_of_exact: "fl x = x \<Longrightarrow> \<bar>x\<bar> \<le> max_double \<Longrightarrow> js_of x = Num x"
  by (auto simp: js_of_def)

lemma js_of_int: "\<bar>k\<bar> \<le> 2 ^ 53 \<Longrightarrow> js_of (of_int k) = Num (of_int k)"
proof -
  assume k: "\<bar>k\<bar> \<le> 2 ^ 53"
  then have "(of_int \<bar>k\<bar> :: rat) \<le> of_int (2 ^ 53)" by (simp only: of_int_le_iff)
  then have "\<bar>of_int k :: rat\<bar> \<le> max_double" using max_double_ge by simp
  with fl_of_int [OF k] show ?thesis by (rule js_of_exact)
qed

lemma js_of_nat: "k \<le> 2 ^ 53 \<Longrightarrow> js_of (of_nat k) = Num (of_nat k)"
  using js_of_int [of "int k"] by simp

lemma js_of_zero [simp]: "js_of 0 = Num 0"
  using js_of_int [of 0] by simp

lemma js_of_one [simp]: "js_of 1 = Num 1"
  using js_of_int [of 1] by simp

lemma js_of_numeral:
  "numeral w \<le> (9007199254740992::int) \<Longrightarrow> js_of (numeral w) = Num (numeral w)"
  using js_of_int [of "numeral w"] by simp

lemma num_floor_Num: "num_floor x = Num a \<Longrightarrow> \<exists>z. a = of_int z"
  by (cases x) auto

lemma floor_rat_divide_numeral:
  "\<lfloor>numeral a / numeral b :: rat\<rfloor> = numeral a div numeral b"
  using floor_divide_of_int_eq [of "numeral a" "numeral b", where ?'a = rat] by simp

lemma floor_rat_one_divide_numeral:
  "\<lfloor>1 / numeral b :: rat\<rfloor> = 1 div numeral b"
  using floor_divide_of_int_eq [of 1 "numeral b", where ?'a = rat] by simp

lemma binade_eq:
  assumes "2 powi e \<le> x" and "x < 2 powi (e + 1)"
  shows "binade x = e"
proof -
  have x: "0 < x" using assms(1) by (rule less_le_trans [rotated]) simp
  have "2 powi binade x \<le> x" using x by (rule binade_bounds)
  also note assms(2)
  finally have a: "binade x < e + 1" by (rule pow2_less_imp)
  have "2 powi e \<le> x" by fact
  also have "x < 2 powi (binade x + 1)" using x by (rule binade_bounds)
  finally have "e < binade x + 1" by (rule pow2_less_imp)
  with a show ?thesis by simp
qed

lemma fl_eval:
  assumes "2 powi e \<le> x" and "x < 2 powi (e + 1)" and "- 1022 \<le> e"
  shows "fl x = of_int (round_half_even (x / 2 powi (e - 52))) * 2 powi (e - 52)"
proof -
  have x: "0 < x" using assms(1) by (rule less_le_trans [rotated]) simp
  have "binade \<bar>x\<bar> = e" using x assms(1,2) by (simp add: binade_eq)
  then have "quantum x = 2 powi (e - 52)" using assms(3) by (simp add: quantum_def)
  then show ?thesis by (simp add: fl_pos [OF x])
qed

lemma js_of_small: "\<bar>fl x\<bar> \<le> 2 ^ 64 \<Longrightarrow> js_of x = Num (fl x)"
proof -
  have "(2::rat) ^ 64 \<le> max_double" by (simp add: max_double_def)
  moreover assume "\<bar>fl x\<bar> \<le> 2 ^ 64"
  ultimately show ?thesis by (auto simp: js_of_def)
qed

lemma fl_2_54: "fl 18014398509481983 = 18014398509481984"
  by (subst fl_eval [where e = 53])
     (simp_all add: round_half_even_def floor_rat_divide_numeral Let_def)

lemma fl_29_100: "fl (29 / 100) = 5224175567749775 / 18014398509481984"
  by (subst fl_eval [where e = "- 2"])
     (simp_all add: round_half_even_def floor_rat_divide_numeral Let_def power_int_minus_divide)

lemma fl_29_100_times: "fl (5224175567749775 / 18014398509481984 * 100) = 8162774324609023 / 281474976710656"
  by (subst fl_eval [where e = 4])
     (simp_all add: round_half_even_def floor_rat_divide_numeral Let_def power_int_minus_divide)


lemma js_of_2_54: "js_of 18014398509481983 = Num 18014398509481984"
  using fl_2_54 by (simp add: js_of_small)

lemma js_of_29_100: "js_of (29 / 100) = Num (5224175567749775 / 18014398509481984)"
  using fl_29_100 by (simp add: js_of_small)

lemma js_of_29_100_times:
  "js_of (5224175567749775 / 18014398509481984 * 100) = Num (8162774324609023 / 281474976710656)"
  using fl_29_100_times by (simp add: js_of_small)

lemma js_of_dyadic:
  assumes m: "\<bar>m\<bar> \<le> 2 ^ 53" and that: "k \<le> 1074"
  shows "js_of (of_int m / 2 ^ k) = Num (of_int m / 2 ^ k)"
proof -
  have eq: "(of_int m / 2 ^ k :: rat) = of_int m * 2 powi (- int k)"
    by (simp add: power_int_minus_divide)
  have f: "fl (of_int m / 2 ^ k) = of_int m / 2 ^ k"
    using eq m that by (intro fl_representable [of _ m "- int k"]) simp_all
  have "(of_int \<bar>m\<bar> :: rat) \<le> of_int (2 ^ 53)" using m by (simp only: of_int_le_iff)
  then have "\<bar>of_int m :: rat\<bar> \<le> 2 ^ 53" by simp
  moreover have "\<bar>of_int m / 2 ^ k :: rat\<bar> \<le> \<bar>of_int m\<bar>"
    by (simp add: abs_divide divide_le_eq_1 mult_le_cancel_left1 pos_divide_le_eq)
  ultimately have "\<bar>of_int m / 2 ^ k :: rat\<bar> \<le> max_double" using max_double_ge by linarith
  with f show ?thesis by (rule js_of_exact)
qed

lemma js_of_half: "js_of (1 / 2) = Num (1 / 2)"
  using js_of_dyadic [of 1 1] by simp

lemma js_of_five_halves: "js_of (5 / 2) = Num (5 / 2)"
  using js_of_dyadic [of 5 1] by simp

section \<open>Properties of the token bucket\<close>

lemma config_consume: "config (snd (consume now key tb)) = config tb"
  by (simp add: consume_def Let_def)

lemma tokensToAdd_same_time:
  "lastRefill b = now \<Longrightarrow> \<not> num_lt (Num 0) (tokensToAdd cfg now b)"
  by (cases "refillRate cfg") (simp_all add: tokensToAdd_def num_sub_def infinity_of_sign_def)

lemma refill_same_time: "lastRefill b = now \<Longrightarrow> refill cfg now b = b"
  by (simp add: refill_def tokensToAdd_same_time)

lemma lookup_bucket_new:
  "lookup_bucket (TokenBucket_new cfg) now key = \<lparr> tokens = capacity cfg, lastRefill = now \<rparr>"
  by (simp add: lookup_bucket_def TokenBucket_new_def)

lemma lookup_bucket_consume:
  "lookup_bucket (snd (consume now key tb)) now' key =
     (let b = refill (config tb) now (lookup_bucket tb now key)
      in if num_le (Num 1) (tokens b) then b\<lparr> tokens := num_sub (tokens b) (Num 1) \<rparr> else b)"
  by (simp add: consume_def lookup_bucket_def Let_def)

lemma allowed_consume:
  "allowed (fst (consume now key tb)) =
     num_le (Num 1) (tokens (refill (config tb) now (lookup_bucket tb now key)))"
  by (simp add: consume_def Let_def)

lemma remaining_consume:
  "remainingTokens (fst (consume now key tb)) =
     tokens (lookup_bucket (snd (consume now key tb)) now' key)"
  by (simp add: consume_def lookup_bucket_def Let_def)

lemma storage_consume:
  "storage (snd (consume now key tb)) (bucketKey (config tb) key) =
     Some (lookup_bucket (snd (consume now key tb)) now' key)"
  by (simp add: consume_def lookup_bucket_def Let_def)

lemma lookup_bucket_stored:
  "storage tb (bucketKey (config tb) key) = Some b \<Longrightarrow> lookup_bucket tb now key = b"
  by (simp add: lookup_bucket_def)

lemma take_one_nat:
  "k \<le> 2 ^ 53 \<Longrightarrow> num_sub (Num (of_nat (Suc k))) (Num 1) = Num (of_nat k)"
  using js_of_nat [of k] by (simp add: num_sub_def)

text \<open>
  With the clock standing still, a bucket holding \<open>k\<close> whole tokens, \<open>k\<close> at most
  \<open>2^53\<close>, grants the next \<open>n \<le> k\<close> requests and holds \<open>k - n\<close> tokens afterwards.
\<close>

lemma consume_times_granted:
  "lookup_bucket tb now key = \<lparr> tokens = Num (of_nat k), lastRefill = now \<rparr> \<Longrightarrow> n \<le> k \<Longrightarrow>
   k \<le> 2 ^ 53 \<Longrightarrow>
   fst (consume_times n now key tb) = replicate n True \<and>
   config (snd (consume_times n now key tb)) = config tb \<and>
   lookup_bucket (snd (consume_times n now key tb)) now key =
     \<lparr> tokens = Num (of_nat (k - n)), lastRefill = now \<rparr> \<and>
   (0 < n \<longrightarrow> storage (snd (consume_times n now key tb)) (bucketKey (config tb) key) =
     Some \<lparr> tokens = Num (of_nat (k - n)), lastRefill = now \<rparr>)"
proof (induction n arbitrary: tb k)
  case 0
  then show ?case by simp
next
  case (Suc n)
  then obtain j where k: "k = Suc j" by (cases k) auto
  have j53: "j \<le> 2 ^ 53" using Suc.prems(3) k by simp
  let ?tb = "snd (consume now key tb)"
  have ok: "allowed (fst (consume now key tb))"
    using Suc.prems(1) by (simp add: allowed_consume refill_same_time k)
  have lk: "lookup_bucket ?tb now key = \<lparr> tokens = Num (of_nat j), lastRefill = now \<rparr>"
    using Suc.prems(1) take_one_nat [OF j53]
    by (simp add: lookup_bucket_consume refill_same_time k)
  have st: "storage ?tb (bucketKey (config tb) key) = Some \<lparr> tokens = Num (of_nat j), lastRefill = now \<rparr>"
    using storage_consume [of now key tb now] lk by simp
  have le: "n \<le> j" using Suc.prems(2) k by simp
  have cf: "config ?tb = config tb" by (rule config_consume)
  from Suc.IH [OF lk le j53] ok st cf show ?case
    by (cases n) (simp_all add: case_prod_unfold k)
qed

lemma consume_times_add:
  "consume_times (m + n) now key tb =
     (let (rs, tb') = consume_times m now key tb;
          (rs', tb'') = consume_times n now key tb'
      in (rs @ rs', tb''))"
  by (induction m arbitrary: tb) (simp_all add: case_prod_unfold Let_def)

text \<open>An empty bucket refuses every request while the clock stands still.\<close>

lemma consume_times_denied:
  "storage tb (bucketKey (config tb) key) = Some \<lparr> tokens = Num 0, lastRefill = now \<rparr> \<Longrightarrow>
   fst (consume_times m now key tb) = replicate m False \<and>
   config (snd (consume_times m now key tb)) = config tb \<and>
   storage (snd (consume_times m now key tb)) (bucketKey (config tb) key) =
     Some \<lparr> tokens = Num 0, lastRefill = now \<rparr>"
proof (induction m arbitrary: tb)
  case 0
  then show ?case by simp
next
  case (Suc m)
  let ?tb = "snd (consume now key tb)"
  have lk: "lookup_bucket tb now key = \<lparr> tokens = Num 0, lastRefill = now \<rparr>"
    using Suc.prems by (rule lookup_bucket_stored)
  have no: "\<not> allowed (fst (consume now key tb))"
    using lk by (simp add: allowed_consume refill_same_time)
  have cf: "config ?tb = config tb" by (rule config_consume)
  have st: "storage ?tb (bucketKey (config ?tb) key) = Some \<lparr> tokens = Num 0, lastRefill = now \<rparr>"
    using storage_consume [of now key tb now] lk
    by (simp add: cf lookup_bucket_consume refill_same_time)
  from Suc.IH [OF st] no cf show ?case
    by (simp add: case_prod_unfold)
qed

lemma consume_times_snoc:
  "consume_times (Suc n) now key tb =
     (let (rs, tb') = consume_times n now key tb;
          (r, tb'') = consume now key tb'
      in (rs @ [allowed r], tb''))"
  by (induction n arbitrary: tb) (simp_all add: case_prod_unfold Let_def)

lemma consume_on_stored:
  assumes "storage tb (bucketKey (config tb) key) = Some b"
  shows "allowed (fst (consume now key tb)) = num_le (Num 1) (tokens (refill (config tb) now b))"
    and "config (snd (consume now key tb)) = config tb"
    and "storage (snd (consume now key tb)) (bucketKey (config tb) key) =
           Some (if num_le (Num 1) (tokens (refill (config tb) now b))
                 then (refill (config tb) now b)
                        \<lparr> tokens := num_sub (tokens (refill (config tb) now b)) (Num 1) \<rparr>
                 else refill (config tb) now b)"
    and "remainingTokens (fst (consume now key tb)) =
           (if num_le (Num 1) (tokens (refill (config tb) now b))
            then num_sub (tokens (refill (config tb) now b)) (Num 1)
            else tokens (refill (config tb) now b))"
  using assms by (simp_all add: consume_def lookup_bucket_def Let_def)

lemma config_new:
  "capacity (config (TokenBucket_new cfg)) = capacity cfg"
  "refillRate (config (TokenBucket_new cfg)) = refillRate cfg"
  by (simp_all add: TokenBucket_new_def)

text \<open>
  A bucket that holds \<open>2^54\<close> tokens does not drain: \<open>2^54 - 1\<close> is not a double and
  rounds back to \<open>2^54\<close>, so every request is granted and the count stays.
\<close>

lemma consume_stuck:
  assumes "lookup_bucket tb now key = \<lparr> tokens = Num 18014398509481984, lastRefill = now \<rparr>"
  shows "allowed (fst (consume now key tb))"
    and "lookup_bucket (snd (consume now key tb)) now key =
           \<lparr> tokens = Num 18014398509481984, lastRefill = now \<rparr>"
  using assms js_of_2_54
  by (simp_all add: allowed_consume lookup_bucket_consume refill_same_time num_sub_def)

lemma consume_times_stuck:
  "lookup_bucket tb now key = \<lparr> tokens = Num 18014398509481984, lastRefill = now \<rparr> \<Longrightarrow>
   fst (consume_times n now key tb) = replicate n True"
proof (induction n arbitrary: tb)
  case 0
  then show ?case by simp
next
  case (Suc n)
  from consume_stuck [OF Suc.prems] Suc.IH [of "snd (consume now key tb)"]
  show ?case by (simp add: case_prod_unfold)
qed

lemma not_drained:
  assumes "fst (consume_times (Suc n) now key tb) = replicate (Suc n) True"
  shows "fst (consume_times (Suc n) now key tb) \<noteq> replicate n True @ [False]"
proof -
  have "replicate (Suc n) True = replicate n True @ [True]"
    by (simp only: replicate_Suc replicate_append_same)
  then show ?thesis by (simp only: assms same_append_eq) simp
qed

subsection \<open>C1: capacity bound\<close>

text \<open>
  C1, as the source has it. On a freshly constructed \<open>TokenBucket\<close> whose capacity is a
  positive integer \<open>n\<close> of at most \<open>2^53\<close>, for any client key, any refill rate and with
  the clock standing still between the calls, the first \<open>n\<close> consecutive \<open>consume(key)\<close>
  calls return \<open>allowed = true\<close> and call number \<open>n + 1\<close> returns \<open>allowed = false\<close>.
\<close>

theorem capacity_bound:
  assumes "capacity cfg = Num (of_nat n)" and "0 < n" and "n \<le> 2 ^ 53"
  shows "fst (consume_times (Suc n) now key (TokenBucket_new cfg)) = replicate n True @ [False]"
proof -
  let ?tb = "TokenBucket_new cfg"
  let ?tb' = "snd (consume_times n now key ?tb)"
  have lk: "lookup_bucket ?tb now key = \<lparr> tokens = Num (of_nat n), lastRefill = now \<rparr>"
    using assms(1) by (simp add: lookup_bucket_new)
  from consume_times_granted [OF lk order_refl assms(3)]
  have g: "fst (consume_times n now key ?tb) = replicate n True"
    and l: "lookup_bucket ?tb' now key = \<lparr> tokens = Num 0, lastRefill = now \<rparr>"
    by simp_all
  have "\<not> allowed (fst (consume now key ?tb'))"
    using l by (simp add: allowed_consume refill_same_time)
  with g show ?thesis
    by (simp add: consume_times_snoc case_prod_unfold del: consume_times.simps)
qed

theorem capacity_bound_witness:
  "capacity \<lparr> capacity = Num (of_nat 3), refillRate = Num 1, keyPrefix = None \<rparr> = Num (of_nat 3) \<and>
   (0::nat) < 3 \<and> (3::nat) \<le> 2 ^ 53 \<and>
   fst (consume_times (Suc 3) 1700000000000 ''client1''
          (TokenBucket_new \<lparr> capacity = Num (of_nat 3), refillRate = Num 1, keyPrefix = None \<rparr>))
     = replicate 3 True @ [False]"
  using capacity_bound [of "\<lparr> capacity = Num (of_nat 3), refillRate = Num 1, keyPrefix = None \<rparr>" 3
                           1700000000000 "''client1''"]
  by simp

text \<open>
  The claim as stated, for every positive integer capacity, fails above \<open>2^53\<close>: with
  capacity \<open>2^54\<close> the first call is allowed and leaves \<open>2^54\<close> tokens, so the bucket
  never drains and call number \<open>2^54 + 1\<close> is allowed too.
\<close>

theorem capacity_bound_counterexample:
  "allowed (fst (consume 0 ''client1''
     (TokenBucket_new \<lparr> capacity = Num 18014398509481984, refillRate = Num 1, keyPrefix = None \<rparr>))) \<and>
   remainingTokens (fst (consume 0 ''client1''
     (TokenBucket_new \<lparr> capacity = Num 18014398509481984, refillRate = Num 1, keyPrefix = None \<rparr>)))
     = Num 18014398509481984 \<and>
   fst (consume_times (Suc 18014398509481984) 0 ''client1''
     (TokenBucket_new \<lparr> capacity = Num 18014398509481984, refillRate = Num 1, keyPrefix = None \<rparr>))
     \<noteq> replicate 18014398509481984 True @ [False]"
proof -
  let ?tb = "TokenBucket_new \<lparr> capacity = Num 18014398509481984, refillRate = Num 1, keyPrefix = None \<rparr>"
  have lk: "lookup_bucket ?tb 0 ''client1'' = \<lparr> tokens = Num 18014398509481984, lastRefill = 0 \<rparr>"
    by (simp add: lookup_bucket_new)
  have a: "allowed (fst (consume 0 ''client1'' ?tb))"
    using lk by (rule consume_stuck)
  have "lookup_bucket (snd (consume 0 ''client1'' ?tb)) 0 ''client1'' =
          \<lparr> tokens = Num 18014398509481984, lastRefill = 0 \<rparr>"
    using lk by (rule consume_stuck)
  then have r: "remainingTokens (fst (consume 0 ''client1'' ?tb)) = Num 18014398509481984"
    by (simp add: remaining_consume [of 0 "''client1''" ?tb 0])
  have "fst (consume_times (Suc 18014398509481984) 0 ''client1'' ?tb)
          = replicate (Suc 18014398509481984) True"
    using lk by (rule consume_times_stuck)
  then have n: "fst (consume_times (Suc 18014398509481984) 0 ''client1'' ?tb)
          \<noteq> replicate 18014398509481984 True @ [False]"
    by (rule not_drained)
  from a r n show ?thesis by (intro conjI)
qed

subsection \<open>C2: refill correctness\<close>

lemma num_min_nat: "num_min (Num (of_nat a)) (Num (of_nat b)) = Num (of_nat (min a b))"
  by (simp add: min_def)

lemma tokensToAdd_whole_seconds:
  assumes "refillRate cfg = Num (of_nat r)" and "now = lastRefill b + 1000 * int s"
    and "1000 * s \<le> 2 ^ 53" and "s * r \<le> 2 ^ 53"
  shows "tokensToAdd cfg now b = Num (of_nat (s * r))"
proof -
  have s: "s \<le> 2 ^ 53" using assms(3) by simp
  have "num_sub (Num (of_int now)) (Num (of_int (lastRefill b))) = js_of (of_nat (1000 * s))"
    by (simp add: num_sub_def assms(2))
  also have "\<dots> = Num (of_nat (1000 * s))" using assms(3) by (rule js_of_nat)
  finally have d: "num_sub (Num (of_int now)) (Num (of_int (lastRefill b))) = Num (of_nat (1000 * s))" .
  have "num_quot (Num (of_nat (1000 * s))) (Num 1000) = js_of (of_nat s)" by simp
  also have "\<dots> = Num (of_nat s)" using s by (rule js_of_nat)
  finally have q: "num_quot (Num (of_nat (1000 * s))) (Num 1000) = Num (of_nat s)" .
  have "num_mul (Num (of_nat s)) (Num (of_nat r)) = js_of (of_nat (s * r))" by simp
  also have "\<dots> = Num (of_nat (s * r))" using assms(4) by (rule js_of_nat)
  finally have m: "num_mul (Num (of_nat s)) (Num (of_nat r)) = Num (of_nat (s * r))" .
  show ?thesis
    by (simp only: tokensToAdd_def d q assms(1) m num_floor.simps floor_of_nat of_int_of_nat_eq)
qed

lemma refill_whole_seconds:
  assumes "tokens b = Num (of_nat k)" and "capacity cfg = Num (of_nat c)" and "k \<le> c"
    and "refillRate cfg = Num (of_nat r)" and "now = lastRefill b + 1000 * int s"
    and "1000 * s \<le> 2 ^ 53" and "k + s * r \<le> 2 ^ 53"
  shows "tokens (refill cfg now b) = Num (of_nat (min c (k + s * r)))"
proof -
  have sr: "s * r \<le> 2 ^ 53" using assms(7) by simp
  have add: "tokensToAdd cfg now b = Num (of_nat (s * r))"
    using assms(4,5,6) sr by (rule tokensToAdd_whole_seconds)
  show ?thesis
  proof (cases "0 < s * r")
    case True
    have "num_add (Num (of_nat k)) (Num (of_nat (s * r))) = js_of (of_nat (k + s * r))" by simp
    also have "\<dots> = Num (of_nat (k + s * r))" using assms(7) by (rule js_of_nat)
    finally have sum: "num_add (Num (of_nat k)) (Num (of_nat (s * r))) = Num (of_nat (k + s * r))" .
    have "num_lt (Num 0) (Num (of_nat (s * r)))" using True by simp
    then have "num_lt (Num 0) (tokensToAdd cfg now b)" by (simp only: add)
    then have "tokens (refill cfg now b) =
                 num_min (capacity cfg) (num_add (tokens b) (tokensToAdd cfg now b))"
      by (simp add: refill_def)
    then show ?thesis by (simp only: add assms(1,2) sum num_min_nat)
  next
    case False
    then have z: "s * r = 0" by simp
    have "tokensToAdd cfg now b = Num 0" using add by (simp only: z) simp
    then have "\<not> num_lt (Num 0) (tokensToAdd cfg now b)" by simp
    then have "tokens (refill cfg now b) = Num (of_nat k)" using assms(1) by (simp add: refill_def)
    moreover have "min c (k + s * r) = k" using assms(3) by (simp add: z)
    ultimately show ?thesis by simp
  qed
qed

lemma refill_scenario:
  assumes "capacity cfg = Num 10" and "refillRate cfg = Num 1"
  shows "fst (consume_times (10 + m) t key (TokenBucket_new cfg)) = replicate 10 True @ replicate m False"
    and "fst (consume_times 3 (t + 2000) key (snd (consume_times (10 + m) t key (TokenBucket_new cfg))))
           = [True, True, False]"
proof -
  let ?tb0 = "TokenBucket_new cfg"
  let ?k = "bucketKey (config ?tb0) key"
  let ?tb1 = "snd (consume_times 10 t key ?tb0)"
  let ?tb2 = "snd (consume_times m t key ?tb1)"
  have lk: "lookup_bucket ?tb0 t key = \<lparr> tokens = Num (of_nat 10), lastRefill = t \<rparr>"
    using assms(1) by (simp add: lookup_bucket_new)
  have "(10::nat) \<le> 2 ^ 53" by simp
  from consume_times_granted [OF lk order_refl this]
  have g: "fst (consume_times 10 t key ?tb0) = replicate 10 True"
    and c1: "config ?tb1 = config ?tb0"
    and s1: "storage ?tb1 ?k = Some \<lparr> tokens = Num 0, lastRefill = t \<rparr>"
    by simp_all
  from s1 have s1': "storage ?tb1 (bucketKey (config ?tb1) key) = Some \<lparr> tokens = Num 0, lastRefill = t \<rparr>"
    by (simp only: c1)
  from consume_times_denied [OF s1', of m]
  have d: "fst (consume_times m t key ?tb1) = replicate m False"
    and c2: "config ?tb2 = config ?tb0"
    and s2: "storage ?tb2 ?k = Some \<lparr> tokens = Num 0, lastRefill = t \<rparr>"
    by (simp_all only: c1)
  have split: "consume_times (10 + m) t key ?tb0 = (replicate 10 True @ replicate m False, ?tb2)"
    using g d by (simp only: consume_times_add case_prod_unfold Let_def fst_conv snd_conv)
  show "fst (consume_times (10 + m) t key ?tb0) = replicate 10 True @ replicate m False"
    by (simp only: split fst_conv)
  have cap: "capacity (config ?tb2) = Num (of_nat 10)"
    and rate: "refillRate (config ?tb2) = Num (of_nat 1)"
    using assms by (simp_all add: c2 config_new)
  let ?a = "snd (consume (t + 2000) key ?tb2)"
  let ?b = "snd (consume (t + 2000) key ?a)"
  have s2': "storage ?tb2 (bucketKey (config ?tb2) key) = Some \<lparr> tokens = Num 0, lastRefill = t \<rparr>"
    using s2 by (simp only: c2)
  have rf: "tokens (refill (config ?tb2) (t + 2000) \<lparr> tokens = Num 0, lastRefill = t \<rparr>) = Num 2"
    using refill_whole_seconds [of "\<lparr> tokens = Num 0, lastRefill = t \<rparr>" 0 "config ?tb2" 10 1
            "t + 2000" 2] cap rate
    by simp
  have rl: "lastRefill (refill (config ?tb2) (t + 2000) \<lparr> tokens = Num 0, lastRefill = t \<rparr>) = t + 2000"
    using tokensToAdd_whole_seconds [of "config ?tb2" 1 "t + 2000"
            "\<lparr> tokens = Num 0, lastRefill = t \<rparr>" 2] rate
    by (simp add: refill_def)
  have rb: "refill (config ?tb2) (t + 2000) \<lparr> tokens = Num 0, lastRefill = t \<rparr>
              = \<lparr> tokens = Num 2, lastRefill = t + 2000 \<rparr>"
    using rf rl by (cases "refill (config ?tb2) (t + 2000) \<lparr> tokens = Num 0, lastRefill = t \<rparr>") simp
  have one: "num_sub (Num 2) (Num 1) = Num 1" "num_sub (Num 1) (Num 1) = Num 0"
    by (simp_all add: num_sub_def)
  have a1: "allowed (fst (consume (t + 2000) key ?tb2))"
    and ca: "config ?a = config ?tb2"
    and sa: "storage ?a (bucketKey (config ?tb2) key) = Some \<lparr> tokens = Num 1, lastRefill = t + 2000 \<rparr>"
    using consume_on_stored(1-3) [OF s2', of "t + 2000"]
    by (simp_all add: rb one)
  have sa': "storage ?a (bucketKey (config ?a) key) = Some \<lparr> tokens = Num 1, lastRefill = t + 2000 \<rparr>"
    using sa by (simp only: ca)
  have a2: "allowed (fst (consume (t + 2000) key ?a))"
    and cb: "config ?b = config ?a"
    and sb: "storage ?b (bucketKey (config ?a) key) = Some \<lparr> tokens = Num 0, lastRefill = t + 2000 \<rparr>"
    using consume_on_stored(1-3) [OF sa', of "t + 2000"]
    by (simp_all add: refill_same_time one)
  have sb': "storage ?b (bucketKey (config ?b) key) = Some \<lparr> tokens = Num 0, lastRefill = t + 2000 \<rparr>"
    using sb by (simp only: cb)
  have a3: "\<not> allowed (fst (consume (t + 2000) key ?b))"
    using consume_on_stored(1) [OF sb', of "t + 2000"]
    by (simp add: refill_same_time)
  show "fst (consume_times 3 (t + 2000) key (snd (consume_times (10 + m) t key ?tb0))) = [True, True, False]"
    using a1 a2 a3 by (simp add: split numeral_3_eq_3 case_prod_unfold)
qed

text \<open>
  When the computed number of tokens is not negative, the guard of the refill step can
  be ignored: adding zero tokens to a bucket within its capacity changes nothing.
\<close>

lemma refill_amount:
  assumes "tokens b = Num t" and "fl t = t" and "0 \<le> t" and "t \<le> c" and "c \<le> max_double"
    and "capacity cfg = Num c"
    and "num_le (Num 0) (tokensToAdd cfg now b)"
  shows "tokens (refill cfg now b) =
           num_min (capacity cfg) (num_add (tokens b) (tokensToAdd cfg now b))"
proof (cases "num_lt (Num 0) (tokensToAdd cfg now b)")
  case True
  then show ?thesis by (simp add: refill_def)
next
  case False
  with assms(7) have z: "tokensToAdd cfg now b = Num 0"
    by (cases "tokensToAdd cfg now b") simp_all
  have "\<bar>t\<bar> \<le> max_double" using assms(3,4,5) by simp
  with assms(2) have "js_of t = Num t" by (rule js_of_exact)
  then show ?thesis using False assms(1,4,6) by (simp add: refill_def z)
qed

text \<open>
  C2, as the source has it. When \<open>consume(key)\<close> runs at time \<open>now\<close> on a bucket whose
  token count is a double within the capacity, and the computed
  \<open>Math.floor(timeDelta * refillRate)\<close> is not negative, the tokens available to the
  request are the stored tokens plus that floor, capped at \<open>capacity\<close>, where the
  difference of the timestamps, the division by 1000, the product with the rate and the
  sum are each rounded to a double. The request is allowed exactly when that amount is at
  least one, and one is subtracted from it. When the elapsed time is a whole number \<open>s\<close>
  of seconds and tokens, capacity and rate are whole numbers (all values at most
  \<open>2^53\<close>), no rounding occurs and the amount is \<open>min(capacity, tokens + s * rate)\<close>, the
  exact \<open>floor(elapsed_seconds * refillRate)\<close>. In particular with \<open>capacity = 10\<close> and
  \<open>refillRate = 1\<close>: after ten granted requests (and any number \<open>m\<close> of refused ones) at
  time \<open>t\<close>, at time \<open>t + 2000\<close> ms two requests in a row are allowed and a third is
  refused.
\<close>

theorem refill_correctness:
  "(tokens (lookup_bucket tb now key) = Num tk \<and> fl tk = tk \<and> 0 \<le> tk \<and> tk \<le> c \<and>
    c \<le> max_double \<and> capacity (config tb) = Num c \<and>
    num_le (Num 0) (tokensToAdd (config tb) now (lookup_bucket tb now key)) \<longrightarrow>
     (let b = lookup_bucket tb now key;
          added = num_floor
                    (num_mul
                       (num_quot (num_sub (Num (of_int now)) (Num (of_int (lastRefill b))))
                                 (Num 1000))
                       (refillRate (config tb)));
          avail = num_min (capacity (config tb)) (num_add (tokens b) added)
      in allowed (fst (consume now key tb)) = num_le (Num 1) avail \<and>
         remainingTokens (fst (consume now key tb)) =
           (if num_le (Num 1) avail then num_sub avail (Num 1) else avail) \<and>
         tokens (lookup_bucket (snd (consume now key tb)) now key) =
           (if num_le (Num 1) avail then num_sub avail (Num 1) else avail))) \<and>
   (tokens (lookup_bucket tb' now' key') = Num (of_nat k) \<and>
    capacity (config tb') = Num (of_nat n) \<and> k \<le> n \<and>
    refillRate (config tb') = Num (of_nat r) \<and>
    now' = lastRefill (lookup_bucket tb' now' key') + 1000 * int s \<and>
    1000 * s \<le> 2 ^ 53 \<and> k + s * r \<le> 2 ^ 53 \<longrightarrow>
     allowed (fst (consume now' key' tb')) = (1 \<le> min n (k + s * r)) \<and>
     remainingTokens (fst (consume now' key' tb')) =
       Num (of_nat (if 1 \<le> min n (k + s * r) then min n (k + s * r) - 1 else 0))) \<and>
   (capacity cfg = Num 10 \<and> refillRate cfg = Num 1 \<longrightarrow>
     fst (consume_times (10 + m) t key'' (TokenBucket_new cfg)) = replicate 10 True @ replicate m False \<and>
     fst (consume_times 3 (t + 2000) key''
            (snd (consume_times (10 + m) t key'' (TokenBucket_new cfg)))) = [True, True, False])"
proof (intro conjI impI)
  assume h: "tokens (lookup_bucket tb now key) = Num tk \<and> fl tk = tk \<and> 0 \<le> tk \<and> tk \<le> c \<and>
    c \<le> max_double \<and> capacity (config tb) = Num c \<and>
    num_le (Num 0) (tokensToAdd (config tb) now (lookup_bucket tb now key))"
  then have "tokens (refill (config tb) now (lookup_bucket tb now key)) =
           num_min (capacity (config tb))
             (num_add (tokens (lookup_bucket tb now key))
                      (tokensToAdd (config tb) now (lookup_bucket tb now key)))"
    by (intro refill_amount [of _ tk c]) simp_all
  then show "let b = lookup_bucket tb now key;
          added = num_floor
                    (num_mul
                       (num_quot (num_sub (Num (of_int now)) (Num (of_int (lastRefill b))))
                                 (Num 1000))
                       (refillRate (config tb)));
          avail = num_min (capacity (config tb)) (num_add (tokens b) added)
      in allowed (fst (consume now key tb)) = num_le (Num 1) avail \<and>
         remainingTokens (fst (consume now key tb)) =
           (if num_le (Num 1) avail then num_sub avail (Num 1) else avail) \<and>
         tokens (lookup_bucket (snd (consume now key tb)) now key) =
           (if num_le (Num 1) avail then num_sub avail (Num 1) else avail)"
    by (simp add: allowed_consume lookup_bucket_consume remaining_consume [of now key tb now]
          Let_def tokensToAdd_def)
next
  assume h: "tokens (lookup_bucket tb' now' key') = Num (of_nat k) \<and>
    capacity (config tb') = Num (of_nat n) \<and> k \<le> n \<and>
    refillRate (config tb') = Num (of_nat r) \<and>
    now' = lastRefill (lookup_bucket tb' now' key') + 1000 * int s \<and>
    1000 * s \<le> 2 ^ 53 \<and> k + s * r \<le> 2 ^ 53"
  define a where "a = min n (k + s * r)"
  have rf: "tokens (refill (config tb') now' (lookup_bucket tb' now' key')) = Num (of_nat a)"
    unfolding a_def using h by (intro refill_whole_seconds) simp_all
  have "a \<le> k + s * r" by (simp add: a_def)
  moreover from h have "k + s * r \<le> 2 ^ 53" by simp
  ultimately have a53: "a \<le> 2 ^ 53" by (rule order_trans)
  have al: "allowed (fst (consume now' key' tb')) = (1 \<le> a)"
    by (simp add: allowed_consume rf)
  have rem: "remainingTokens (fst (consume now' key' tb')) =
               (if 1 \<le> a then num_sub (Num (of_nat a)) (Num 1) else Num (of_nat a))"
    by (simp add: remaining_consume [of now' key' tb' now'] lookup_bucket_consume Let_def rf)
  have rem': "remainingTokens (fst (consume now' key' tb')) =
               Num (of_nat (if 1 \<le> a then a - 1 else 0))"
  proof (cases "1 \<le> a")
    case True
    then obtain j where j: "a = Suc j" by (cases a) simp_all
    then have "j \<le> 2 ^ 53" using a53 by simp
    then show ?thesis using take_one_nat [of j] by (simp add: rem j)
  next
    case False
    then show ?thesis by (simp add: rem)
  qed
  show "allowed (fst (consume now' key' tb')) = (1 \<le> min n (k + s * r))"
    using al by (simp only: a_def)
  show "remainingTokens (fst (consume now' key' tb')) =
       Num (of_nat (if 1 \<le> min n (k + s * r) then min n (k + s * r) - 1 else 0))"
    using rem' by (simp only: a_def)
next
  assume "capacity cfg = Num 10 \<and> refillRate cfg = Num 1"
  then have c: "capacity cfg = Num 10" and r: "refillRate cfg = Num 1" by simp_all
  show "fst (consume_times (10 + m) t key'' (TokenBucket_new cfg)) = replicate 10 True @ replicate m False"
    using c r by (rule refill_scenario)
  show "fst (consume_times 3 (t + 2000) key''
            (snd (consume_times (10 + m) t key'' (TokenBucket_new cfg)))) = [True, True, False]"
    using c r by (rule refill_scenario)
qed

theorem refill_correctness_witness:
  "tokens (lookup_bucket
     (snd (consume 0 ''client1''
        (TokenBucket_new \<lparr> capacity = Num 10, refillRate = Num 1, keyPrefix = Some ''test'' \<rparr>)))
     2500 ''client1'') = Num 9 \<and>
   fl 9 = 9 \<and> (0::rat) \<le> 9 \<and> (9::rat) \<le> 10 \<and> 10 \<le> max_double \<and>
   num_le (Num 0)
     (tokensToAdd \<lparr> capacity = Num 10, refillRate = Num 1, keyPrefix = Some ''test'' \<rparr> 2500
        \<lparr> tokens = Num 9, lastRefill = 0 \<rparr>) \<and>
   allowed (fst (consume 2500 ''client1''
     (snd (consume 0 ''client1''
        (TokenBucket_new \<lparr> capacity = Num 10, refillRate = Num 1, keyPrefix = Some ''test'' \<rparr>))))) \<and>
   remainingTokens (fst (consume 2500 ''client1''
     (snd (consume 0 ''client1''
        (TokenBucket_new \<lparr> capacity = Num 10, refillRate = Num 1, keyPrefix = Some ''test'' \<rparr>)))))
     = Num 9 \<and>
   remainingTokens (fst (consume 3000 ''client1''
     (snd (consume 0 ''client1''
        (TokenBucket_new \<lparr> capacity = Num 10, refillRate = Num 1, keyPrefix = Some ''test'' \<rparr>)))))
     = Num 9 \<and>
   fst (consume_times (10 + 1) 0 ''client1''
          (TokenBucket_new \<lparr> capacity = Num 10, refillRate = Num 1, keyPrefix = Some ''test'' \<rparr>))
     = replicate 10 True @ replicate 1 False \<and>
   fst (consume_times 3 (0 + 2000) ''client1''
          (snd (consume_times (10 + 1) 0 ''client1''
             (TokenBucket_new \<lparr> capacity = Num 10, refillRate = Num 1, keyPrefix = Some ''test'' \<rparr>))))
     = [True, True, False]"
proof -
  let ?cfg = "\<lparr> capacity = Num 10, refillRate = Num 1, keyPrefix = Some ''test'' \<rparr>"
  let ?tb = "snd (consume 0 ''client1'' (TokenBucket_new ?cfg))"
  have lk: "lookup_bucket ?tb now ''client1'' = \<lparr> tokens = Num 9, lastRefill = 0 \<rparr>" for now
    by (simp add: lookup_bucket_consume lookup_bucket_new refill_same_time config_new
          num_sub_def js_of_numeral Let_def)
  have cf: "config ?tb = \<lparr> capacity = Num 10, refillRate = Num 1, keyPrefix = Some ''test'' \<rparr>"
    by (simp add: config_consume TokenBucket_new_def)
  have fl9: "fl 9 = 9" using fl_of_int [of 9] by simp
  have md: "10 \<le> max_double" by (simp add: max_double_def)
  have add: "tokensToAdd ?cfg 2500 \<lparr> tokens = Num 9, lastRefill = 0 \<rparr> = Num 2"
    by (simp add: tokensToAdd_def num_sub_def js_of_numeral js_of_five_halves
          floor_rat_divide_numeral)
  have h1: "tokens (lookup_bucket ?tb 2500 ''client1'') = Num 9 \<and> fl 9 = 9 \<and> (0::rat) \<le> 9 \<and>
            (9::rat) \<le> 10 \<and> 10 \<le> max_double \<and> capacity (config ?tb) = Num 10 \<and>
            num_le (Num 0) (tokensToAdd (config ?tb) 2500 (lookup_bucket ?tb 2500 ''client1''))"
    by (simp add: lk cf fl9 md add)
  have h2: "tokens (lookup_bucket ?tb 3000 ''client1'') = Num (of_nat 9) \<and>
            capacity (config ?tb) = Num (of_nat 10) \<and> (9::nat) \<le> 10 \<and>
            refillRate (config ?tb) = Num (of_nat 1) \<and>
            3000 = lastRefill (lookup_bucket ?tb 3000 ''client1'') + 1000 * int 3 \<and>
            1000 * (3::nat) \<le> 2 ^ 53 \<and> (9::nat) + 3 * 1 \<le> 2 ^ 53"
    by (simp add: lk cf)
  have h3: "capacity ?cfg = Num 10 \<and> refillRate ?cfg = Num 1" by simp
  from refill_correctness
         [of ?tb 2500 "''client1''" 9 10 ?tb 3000 "''client1''" 9 10 1 3 ?cfg 1 0 "''client1''"]
       h1 h2 h3
  have r1: "allowed (fst (consume 2500 ''client1'' ?tb))"
    and r2: "remainingTokens (fst (consume 2500 ''client1'' ?tb)) = Num 9"
    and r3: "remainingTokens (fst (consume 3000 ''client1'' ?tb)) = Num 9"
    and r4: "fst (consume_times (10 + 1) 0 ''client1'' (TokenBucket_new ?cfg))
               = replicate 10 True @ replicate 1 False"
    and r5: "fst (consume_times 3 (0 + 2000) ''client1''
               (snd (consume_times (10 + 1) 0 ''client1'' (TokenBucket_new ?cfg))))
               = [True, True, False]"
    by (simp_all add: Let_def lk cf num_sub_def js_of_numeral js_of_five_halves
          floor_rat_divide_numeral)
  have ge: "num_le (Num 0) (tokensToAdd ?cfg 2500 \<lparr> tokens = Num 9, lastRefill = 0 \<rparr>)"
    by (simp add: add)
  have t9: "tokens (lookup_bucket ?tb 2500 ''client1'') = Num 9" by (simp add: lk)
  have ar: "(0::rat) \<le> 9" "(9::rat) \<le> 10" by simp_all
  from t9 fl9 ar md ge r1 r2 r3 r4 r5 show ?thesis by (intro conjI)
qed

text \<open>
  The claim as stated, with the exact \<open>floor(elapsed_seconds * refillRate)\<close>, fails where
  the product is rounded below a whole number: with \<open>capacity = 30\<close> and
  \<open>refillRate = 100\<close>, 290 ms after the bucket was emptied, \<open>290 / 1000\<close> is the double
  just below 0.29 and its product with 100 is 28.999999999999996, so 28 tokens are added
  and 27 remain after the call, where \<open>floor(0.29 * 100) = 29\<close> would leave 28.
\<close>

theorem refill_counterexample:
  "tokensToAdd \<lparr> capacity = Num 30, refillRate = Num 100, keyPrefix = None \<rparr> 290
     \<lparr> tokens = Num 0, lastRefill = 0 \<rparr> = Num 28 \<and>
   \<lfloor>(290 / 1000) * (100::rat)\<rfloor> = 29 \<and>
   fst (consume_times 30 0 ''client1''
          (TokenBucket_new \<lparr> capacity = Num 30, refillRate = Num 100, keyPrefix = None \<rparr>))
     = replicate 30 True \<and>
   remainingTokens (fst (consume 290 ''client1''
     (snd (consume_times 30 0 ''client1''
        (TokenBucket_new \<lparr> capacity = Num 30, refillRate = Num 100, keyPrefix = None \<rparr>)))))
     = Num 27"
proof -
  let ?cfg = "\<lparr> capacity = Num 30, refillRate = Num 100, keyPrefix = None \<rparr>"
  let ?fresh = "TokenBucket_new ?cfg"
  let ?emptied = "snd (consume_times 30 0 ''client1'' ?fresh)"
  have q: "num_quot (num_sub (Num (of_int 290)) (Num (of_int 0))) (Num 1000)
             = Num (5224175567749775 / 18014398509481984)"
    by (simp add: num_sub_def js_of_numeral js_of_29_100)
  have m: "num_mul (Num (5224175567749775 / 18014398509481984)) (Num 100)
             = Num (8162774324609023 / 281474976710656)"
    by (simp only: num_mul.simps js_of_29_100_times)
  have f: "num_floor (Num (8162774324609023 / 281474976710656)) = Num 28"
    by (simp add: floor_rat_divide_numeral)
  have add: "tokensToAdd c 290 \<lparr> tokens = Num 0, lastRefill = 0 \<rparr> = Num 28"
    if "refillRate c = Num 100" for c
    unfolding tokensToAdd_def that
    by (simp only: TokenBucketState.simps q m f)
  have e: "\<lfloor>(290 / 1000) * (100::rat)\<rfloor> = 29" by simp
  have lk: "lookup_bucket ?fresh 0 ''client1'' = \<lparr> tokens = Num (of_nat 30), lastRefill = 0 \<rparr>"
    by (simp add: lookup_bucket_new)
  have "(30::nat) \<le> 2 ^ 53" by simp
  from consume_times_granted [OF lk order_refl this]
  have g: "fst (consume_times 30 0 ''client1'' ?fresh) = replicate 30 True"
    and c1: "config ?emptied = config ?fresh"
    and s1: "storage ?emptied (bucketKey (config ?fresh) ''client1'') = Some \<lparr> tokens = Num 0, lastRefill = 0 \<rparr>"
    by simp_all
  have s1': "storage ?emptied (bucketKey (config ?emptied) ''client1'') = Some \<lparr> tokens = Num 0, lastRefill = 0 \<rparr>"
    using s1 by (simp only: c1)
  have rate: "refillRate (config ?emptied) = Num 100" and cap: "capacity (config ?emptied) = Num 30"
    by (simp_all add: c1 config_new)
  have rf: "tokens (refill (config ?emptied) 290 \<lparr> tokens = Num 0, lastRefill = 0 \<rparr>) = Num 28"
    by (simp add: refill_def add [OF rate] cap js_of_numeral)
  have r: "remainingTokens (fst (consume 290 ''client1'' ?emptied)) = Num 27"
    by (simp add: consume_on_stored(4) [OF s1'] rf num_sub_def js_of_numeral)
  from add [of ?cfg] e g r show ?thesis by simp
qed

subsection \<open>C3: tokens stay between zero and capacity\<close>

lemma max_double_pos: "0 < max_double"
  by (simp add: max_double_def)

text \<open>What the refill step leaves when its guard holds: the capacity, or a double of at
  least one token below the capacity.\<close>

lemma refill_result:
  assumes cap: "capacity cfg = Num c" and ok: "bucket_ok c b"
    and guard: "num_lt (Num 0) (tokensToAdd cfg now b)"
  shows "tokens (refill cfg now b) = Num c \<or>
         (\<exists>u. tokens (refill cfg now b) = Num u \<and> 1 \<le> u \<and> u < c \<and> fl u = u)"
proof -
  from ok obtain t where t: "tokens b = Num t" "0 \<le> t" "t \<le> c" "fl t = t"
    by (auto simp: bucket_ok_def split: jsnum.splits)
  have r: "tokens (refill cfg now b) = num_min (Num c) (num_add (Num t) (tokensToAdd cfg now b))"
    using guard by (simp add: refill_def cap t(1))
  show ?thesis
  proof (cases "tokensToAdd cfg now b")
    case (Num a)
    then have "0 < a" using guard by simp
    moreover obtain z where "a = of_int z"
      using num_floor_Num [of _ a] Num unfolding tokensToAdd_def by blast
    ultimately have "1 \<le> a" by simp
    with t(2) have ta: "1 \<le> t + a" by simp
    then have u1: "1 \<le> fl (t + a)" by (rule fl_ge_one)
    have s: "num_add (Num t) (Num a) = js_of (t + a)" by simp
    show ?thesis
    proof (cases "max_double < fl (t + a)")
      case True
      then have "js_of (t + a) = PosInfinity" by (simp add: js_of_def)
      then show ?thesis by (simp add: r Num)
    next
      case False
      with u1 max_double_pos have j: "js_of (t + a) = Num (fl (t + a))" by (simp add: js_of_def)
      show ?thesis
      proof (cases "c \<le> fl (t + a)")
        case True
        then show ?thesis by (simp add: r Num j)
      next
        case False
        then have "tokens (refill cfg now b) = Num (fl (t + a))" by (simp add: r Num j)
        moreover have "fl (fl (t + a)) = fl (t + a)" by (rule fl_idem)
        ultimately show ?thesis using u1 False by simp
      qed
    qed
  next
    case PosInfinity
    then show ?thesis by (simp add: r)
  next
    case NegInfinity
    with guard show ?thesis by simp
  next
    case NaN
    with guard show ?thesis by simp
  qed
qed

lemma bucket_ok_refill:
  assumes "capacity cfg = Num c" and "0 \<le> c" and "fl c = c" and "bucket_ok c b"
  shows "bucket_ok c (refill cfg now b)"
proof (cases "num_lt (Num 0) (tokensToAdd cfg now b)")
  case True
  from refill_result [OF assms(1,4) True] show ?thesis
    using assms(2,3) by (auto simp: bucket_ok_def)
next
  case False
  then show ?thesis using assms(4) by (simp add: refill_def)
qed

lemma take_one:
  assumes "fl t = t" and "1 \<le> t" and "t \<le> max_double"
  shows "num_sub (Num t) (Num 1) = Num (fl (t - 1))" and "fl (t - 1) \<le> t" and "0 \<le> fl (t - 1)"
proof -
  show le: "fl (t - 1) \<le> t" using assms(1,2) by (intro fl_le_double) simp_all
  show nn: "0 \<le> fl (t - 1)" using assms(2) by (intro fl_nonneg) simp
  from le nn assms(3) max_double_pos
  show "num_sub (Num t) (Num 1) = Num (fl (t - 1))" by (simp add: num_sub_def js_of_def)
qed

lemma bucket_ok_take:
  assumes "c \<le> max_double" and "bucket_ok c b"
  shows "bucket_ok c (if num_le (Num 1) (tokens b)
                      then b\<lparr> tokens := num_sub (tokens b) (Num 1) \<rparr> else b)"
proof -
  from assms(2) obtain t where t: "tokens b = Num t" "0 \<le> t" "t \<le> c" "fl t = t" "c < 1 \<longrightarrow> t = c"
    by (auto simp: bucket_ok_def split: jsnum.splits)
  show ?thesis
  proof (cases "1 \<le> t")
    case True
    have tm: "t \<le> max_double" using t(3) assms(1) by simp
    from take_one [OF t(4) True tm] t True show ?thesis
      by (simp add: bucket_ok_def fl_idem)
  next
    case False
    then show ?thesis using assms(2) t(1) by simp
  qed
qed

lemma bucket_ok_lookup:
  assumes "capacity (config tb) = Num c" and "0 \<le> c" and "fl c = c"
    and "\<And>k b. storage tb k = Some b \<Longrightarrow> bucket_ok c b"
  shows "bucket_ok c (lookup_bucket tb now key)"
  using assms by (auto simp: lookup_bucket_def bucket_ok_def split: option.splits)

lemma bucket_ok_consume:
  assumes "capacity (config tb) = Num c" and "0 \<le> c" and "fl c = c" and "c \<le> max_double"
    and "\<And>k b. storage tb k = Some b \<Longrightarrow> bucket_ok c b"
    and "storage (snd (consume now key tb)) k = Some b"
  shows "bucket_ok c b"
proof (cases "k = bucketKey (config tb) key")
  case True
  have "bucket_ok c (lookup_bucket tb now key)"
    using assms(1,2,3,5) by (rule bucket_ok_lookup)
  with assms(1,2,3) have "bucket_ok c (refill (config tb) now (lookup_bucket tb now key))"
    by (rule bucket_ok_refill)
  with assms(4) have "bucket_ok c (lookup_bucket (snd (consume now key tb)) now key)"
    unfolding lookup_bucket_consume Let_def by (rule bucket_ok_take)
  moreover have "lookup_bucket (snd (consume now key tb)) now key = b"
    using assms(6) True storage_consume [of now key tb now] by simp
  ultimately show ?thesis by simp
next
  case False
  then have "storage tb k = Some b"
    using assms(6) by (simp add: consume_def Let_def)
  then show ?thesis by (rule assms(5))
qed

lemma config_step: "config (snd (step opn s)) = config (snd s)"
  by (cases opn; cases s) (simp_all add: config_consume)

lemma config_run: "config (snd (run ops s)) = config (snd s)"
  by (induction ops arbitrary: s) (simp_all add: config_step)

lemma bucket_ok_step:
  assumes "capacity (config (snd s)) = Num c" and "0 \<le> c" and "fl c = c" and "c \<le> max_double"
    and "\<And>k b. storage (snd s) k = Some b \<Longrightarrow> bucket_ok c b"
    and "storage (snd (step opn s)) k = Some b"
  shows "bucket_ok c b"
proof (cases s)
  case (Pair now tb)
  show ?thesis
  proof (cases opn)
    case (Consume key)
    show ?thesis
      using assms bucket_ok_consume [of tb c now key k b] by (simp add: Pair Consume)
  next
    case (Advance ms)
    then show ?thesis using assms by (simp add: Pair)
  qed
qed

lemma bucket_ok_run:
  assumes "capacity (config (snd s)) = Num c" and "0 \<le> c" and "fl c = c" and "c \<le> max_double"
    and "\<And>k b. storage (snd s) k = Some b \<Longrightarrow> bucket_ok c b"
    and "storage (snd (run ops s)) k = Some b"
  shows "bucket_ok c b"
  using assms(1,5,6)
proof (induction ops arbitrary: s)
  case Nil
  then show ?case by simp
next
  case (Cons opn ops)
  have c: "config (snd (step opn s)) = config (snd s)" by (rule config_step)
  show ?case
  proof (rule Cons.IH)
    show "capacity (config (snd (step opn s))) = Num c" using Cons.prems(1) by (simp add: c)
    show "\<And>k b. storage (snd (step opn s)) k = Some b \<Longrightarrow> bucket_ok c b"
      using Cons.prems(1) assms(2,3,4) Cons.prems(2) by (rule bucket_ok_step)
    show "storage (snd (run ops (step opn s))) k = Some b" using Cons.prems(3) by simp
  qed
qed

lemma refused_unchanged:
  assumes "capacity cfg = Num c" and "bucket_ok c b"
    and "\<not> num_le (Num 1) (tokens (refill cfg now b))"
  shows "tokens (refill cfg now b) = tokens b"
proof (cases "num_lt (Num 0) (tokensToAdd cfg now b)")
  case True
  from refill_result [OF assms(1,2) True] assms(3)
  have "tokens (refill cfg now b) = Num c" and "c < 1" by auto
  with assms(2) show ?thesis by (auto simp: bucket_ok_def split: jsnum.splits)
next
  case False
  then show ?thesis by (simp add: refill_def)
qed

lemma take_exact:
  assumes "bucket_ok c b" and "c \<le> 2 ^ 53" and "num_le (Num 1) (tokens b)"
  shows "\<exists>u. tokens b = Num u \<and> num_sub (tokens b) (Num 1) = Num (u - 1)"
proof -
  from assms(1) obtain t where t: "tokens b = Num t" "0 \<le> t" "t \<le> c" "fl t = t"
    by (auto simp: bucket_ok_def split: jsnum.splits)
  have t1: "1 \<le> t" using assms(3) t(1) by simp
  have t53: "t \<le> 2 ^ 53" using t(3) assms(2) by simp
  have tm: "t \<le> max_double" using t53 max_double_ge by simp
  have "fl (t - 1) = t - 1" using t(4) t1 t53 by (rule fl_sub_one)
  with take_one(1) [OF t(4) t1 tm] show ?thesis by (simp add: t(1))
qed

text \<open>
  C3, as the source has it. Let a bucket object be constructed with a positive finite
  capacity and let any sequence of \<open>consume\<close> calls (for any keys) and clock advances be
  applied to it. Then every stored bucket holds between \<open>0\<close> and \<open>capacity\<close> tokens, and
  so does the bucket of \<open>key\<close> after one more \<open>consume(key)\<close>. That call either is
  refused, and then leaves the token count as it was before the call, or is allowed; an
  allowed call leaves exactly one token less than the refilled amount when the capacity
  is at most \<open>2^53\<close>.
\<close>

theorem tokens_invariant:
  assumes "capacity cfg = Num c" and "0 < c" and "fl c = c" and "c \<le> max_double"
    and "run ops (t0, TokenBucket_new cfg) = (now, tb)"
  shows "(storage tb k = Some b \<longrightarrow> num_le (Num 0) (tokens b) \<and> num_le (tokens b) (capacity cfg)) \<and>
         (let before = lookup_bucket tb now key;
              avail = tokens (refill (config tb) now before);
              after = lookup_bucket (snd (consume now key tb)) now key
          in num_le (Num 0) (tokens after) \<and> num_le (tokens after) (capacity cfg) \<and>
             (if allowed (fst (consume now key tb))
              then num_le (Num 1) avail \<and>
                   (c \<le> 2 ^ 53 \<longrightarrow> (\<exists>u. avail = Num u \<and> tokens after = Num (u - 1)))
              else tokens after = tokens before))"
proof -
  let ?s = "(t0, TokenBucket_new cfg)"
  have c: "config tb = config (snd ?s)" using config_run [of ops ?s] assms(5) by simp
  have cap: "capacity (config tb) = Num c" by (simp add: c config_new assms(1))
  have cap0: "capacity (config (snd ?s)) = Num c" by (simp add: config_new assms(1))
  have nn: "0 \<le> c" using assms(2) by simp
  have init: "\<And>k b. storage (snd ?s) k = Some b \<Longrightarrow> bucket_ok c b"
    by (simp add: TokenBucket_new_def)
  have inv: "\<And>k b. storage tb k = Some b \<Longrightarrow> bucket_ok c b"
  proof -
    fix k b assume "storage tb k = Some b"
    then have "storage (snd (run ops ?s)) k = Some b" using assms(5) by simp
    with cap0 nn assms(3,4) init show "bucket_ok c b" by (rule bucket_ok_run)
  qed
  have lk: "bucket_ok c (lookup_bucket tb now key)"
    using cap nn assms(3) inv by (rule bucket_ok_lookup)
  with cap nn assms(3)
  have rf: "bucket_ok c (refill (config tb) now (lookup_bucket tb now key))"
    by (rule bucket_ok_refill)
  have af: "bucket_ok c (lookup_bucket (snd (consume now key tb)) now key)"
    unfolding lookup_bucket_consume Let_def using assms(4) rf by (rule bucket_ok_take)
  have bounds: "bucket_ok c x \<Longrightarrow> num_le (Num 0) (tokens x) \<and> num_le (tokens x) (capacity cfg)" for x
    by (auto simp: bucket_ok_def assms(1) split: jsnum.splits)
  have 1: "storage tb k = Some b \<longrightarrow> num_le (Num 0) (tokens b) \<and> num_le (tokens b) (capacity cfg)"
    using inv [of k b] bounds [of b] by blast
  have 2: "num_le (Num 0) (tokens (lookup_bucket (snd (consume now key tb)) now key)) \<and>
           num_le (tokens (lookup_bucket (snd (consume now key tb)) now key)) (capacity cfg)"
    using af by (rule bounds)
  have 3: "allowed (fst (consume now key tb)) \<Longrightarrow>
             num_le (Num 1) (tokens (refill (config tb) now (lookup_bucket tb now key)))"
    by (simp add: allowed_consume)
  have 4: "\<exists>u. tokens (refill (config tb) now (lookup_bucket tb now key)) = Num u \<and>
                tokens (lookup_bucket (snd (consume now key tb)) now key) = Num (u - 1)"
    if "allowed (fst (consume now key tb))" and "c \<le> 2 ^ 53"
    using take_exact [OF rf that(2) 3 [OF that(1)]] 3 [OF that(1)]
    by (simp add: lookup_bucket_consume Let_def)
  have 5: "\<not> allowed (fst (consume now key tb)) \<Longrightarrow>
             tokens (lookup_bucket (snd (consume now key tb)) now key) =
               tokens (lookup_bucket tb now key)"
    using refused_unchanged [OF cap lk, of now]
    by (simp add: allowed_consume lookup_bucket_consume Let_def)
  from 1 2 3 4 5 show ?thesis by (simp add: Let_def)
qed

theorem tokens_invariant_witness:
  "capacity \<lparr> capacity = Num 2, refillRate = Num 1, keyPrefix = None \<rparr> = Num 2 \<and>
   (0::rat) < 2 \<and> fl 2 = 2 \<and> 2 \<le> max_double \<and> (2::rat) \<le> 2 ^ 53 \<and>
   run [Consume ''a'', Consume ''a'', Consume ''a'', Advance 2500]
       (0, TokenBucket_new \<lparr> capacity = Num 2, refillRate = Num 1, keyPrefix = None \<rparr>)
     = (2500, snd (run [Consume ''a'', Consume ''a'', Consume ''a'', Advance 2500]
                     (0, TokenBucket_new \<lparr> capacity = Num 2, refillRate = Num 1, keyPrefix = None \<rparr>))) \<and>
   storage (snd (run [Consume ''a'', Consume ''a'', Consume ''a'', Advance 2500]
                   (0, TokenBucket_new \<lparr> capacity = Num 2, refillRate = Num 1, keyPrefix = None \<rparr>)))
     ''rate_limit:a'' = Some \<lparr> tokens = Num 0, lastRefill = 0 \<rparr> \<and>
   allowed (fst (consume 2500 ''a''
     (snd (run [Consume ''a'', Consume ''a'', Consume ''a'', Advance 2500]
             (0, TokenBucket_new \<lparr> capacity = Num 2, refillRate = Num 1, keyPrefix = None \<rparr>))))) \<and>
   tokens (refill \<lparr> capacity = Num 2, refillRate = Num 1, keyPrefix = Some ''rate_limit'' \<rparr> 2500
             \<lparr> tokens = Num 0, lastRefill = 0 \<rparr>) = Num 2 \<and>
   tokens (lookup_bucket (snd (consume 2500 ''a''
     (snd (run [Consume ''a'', Consume ''a'', Consume ''a'', Advance 2500]
             (0, TokenBucket_new \<lparr> capacity = Num 2, refillRate = Num 1, keyPrefix = None \<rparr>)))))
     2500 ''a'') = Num (2 - 1)"
proof -
  let ?cfg = "\<lparr> capacity = Num 2, refillRate = Num 1, keyPrefix = None \<rparr>"
  let ?ops = "[Consume ''a'', Consume ''a'', Consume ''a'', Advance 2500]"
  define s where "s = run ?ops (0, TokenBucket_new ?cfg)"
  have fl2: "fl 2 = 2" using fl_of_int [of 2] by simp
  have md: "2 \<le> max_double" by (simp add: max_double_def)
  have ar: "(0::rat) < 2" "(2::rat) \<le> 2 ^ 53" by simp_all
  have cp: "capacity ?cfg = Num 2" by simp
  have r: "run ?ops (0, TokenBucket_new ?cfg) = (2500, snd s)"
    by (simp add: s_def prod_eq_iff)
  have cf: "config (snd s) = \<lparr> capacity = Num 2, refillRate = Num 1, keyPrefix = Some ''rate_limit'' \<rparr>"
    unfolding s_def by (simp only: config_run snd_conv) (simp add: TokenBucket_new_def)
  have st: "storage (snd s) ''rate_limit:a'' = Some \<lparr> tokens = Num 0, lastRefill = 0 \<rparr>"
    unfolding s_def
    by (simp add: Let_def consume_def lookup_bucket_def refill_def tokensToAdd_def
          TokenBucket_new_def bucketKey_def num_sub_def js_of_numeral infinity_of_sign_def)
  have lk: "lookup_bucket (snd s) 2500 ''a'' = \<lparr> tokens = Num 0, lastRefill = 0 \<rparr>"
  proof (rule lookup_bucket_stored)
    have "bucketKey (config (snd s)) ''a'' = ''rate_limit:a''"
      by (simp only: cf) (simp add: bucketKey_def)
    with st show "storage (snd s) (bucketKey (config (snd s)) ''a'')
                    = Some \<lparr> tokens = Num 0, lastRefill = 0 \<rparr>"
      by (simp only:)
  qed
  have add: "tokensToAdd \<lparr> capacity = Num 2, refillRate = Num 1, keyPrefix = Some ''rate_limit'' \<rparr> 2500
               \<lparr> tokens = Num 0, lastRefill = 0 \<rparr> = Num 2"
    by (simp add: tokensToAdd_def num_sub_def js_of_numeral js_of_five_halves
          floor_rat_divide_numeral)
  have rf: "tokens (refill \<lparr> capacity = Num 2, refillRate = Num 1, keyPrefix = Some ''rate_limit'' \<rparr> 2500
             \<lparr> tokens = Num 0, lastRefill = 0 \<rparr>) = Num 2"
    by (simp add: refill_def add js_of_numeral)
  have a: "allowed (fst (consume 2500 ''a'' (snd s)))"
    by (simp add: allowed_consume lk cf rf)
  from tokens_invariant [OF cp ar(1) fl2 md r, where key = "''a''"] a
  have t: "tokens (lookup_bucket (snd (consume 2500 ''a'' (snd s))) 2500 ''a'') = Num (2 - 1)"
    by (simp add: Let_def lk cf rf)
  from cp ar(1) fl2 md ar(2) r st a rf t show ?thesis
    unfolding s_def by (intro conjI)
qed

text \<open>
  The claim as stated, that every allowed call decrements the tokens by exactly one, fails
  above \<open>2^53\<close>: with capacity \<open>2^54\<close> the first call is allowed, the refilled amount is
  \<open>2^54\<close> and so is the token count after the call.
\<close>

theorem tokens_invariant_counterexample:
  "allowed (fst (consume 0 ''client1''
     (TokenBucket_new \<lparr> capacity = Num 18014398509481984, refillRate = Num 1, keyPrefix = None \<rparr>))) \<and>
   tokens (refill
     (config (TokenBucket_new \<lparr> capacity = Num 18014398509481984, refillRate = Num 1, keyPrefix = None \<rparr>))
     0
     (lookup_bucket
        (TokenBucket_new \<lparr> capacity = Num 18014398509481984, refillRate = Num 1, keyPrefix = None \<rparr>)
        0 ''client1'')) = Num 18014398509481984 \<and>
   tokens (lookup_bucket
     (snd (consume 0 ''client1''
        (TokenBucket_new \<lparr> capacity = Num 18014398509481984, refillRate = Num 1, keyPrefix = None \<rparr>)))
     0 ''client1'') = Num 18014398509481984 \<and>
   Num 18014398509481984 \<noteq> Num (18014398509481984 - 1)"
proof -
  let ?fresh = "TokenBucket_new \<lparr> capacity = Num 18014398509481984, refillRate = Num 1, keyPrefix = None \<rparr>"
  have lk: "lookup_bucket ?fresh 0 ''client1'' = \<lparr> tokens = Num 18014398509481984, lastRefill = 0 \<rparr>"
    by (simp add: lookup_bucket_new)
  have a: "allowed (fst (consume 0 ''client1'' ?fresh))" using lk by (rule consume_stuck)
  have b: "tokens (refill (config ?fresh) 0 (lookup_bucket ?fresh 0 ''client1'')) = Num 18014398509481984"
    by (simp add: lk refill_same_time)
  have "lookup_bucket (snd (consume 0 ''client1'' ?fresh)) 0 ''client1''
          = \<lparr> tokens = Num 18014398509481984, lastRefill = 0 \<rparr>"
    using lk by (rule consume_stuck)
  then have c: "tokens (lookup_bucket (snd (consume 0 ''client1'' ?fresh)) 0 ''client1'')
                  = Num 18014398509481984" by simp
  have d: "Num 18014398509481984 \<noteq> Num (18014398509481984 - 1)" by simp
  from a b c d show ?thesis by (intro conjI)
qed

subsection \<open>C6: when the refill timestamp advances\<close>

text \<open>
  C6, as the source has it. \<open>consume(key)\<close> sets \<open>lastRefill\<close> to the current time only
  under the guard \<open>tokensToAdd > 0\<close>, that is when at least one whole token is added.
  When \<open>floor(elapsed_seconds * refillRate)\<close> is zero (or negative) the stored timestamp
  is left as it was, so the elapsed fraction keeps counting towards the next token. (A
  key without an entry gets a bucket whose \<open>lastRefill\<close> is the current time.)
\<close>

theorem lastRefill_advance:
  "lastRefill (lookup_bucket (snd (consume now key tb)) now' key) =
     (if num_lt (Num 0)
           (num_floor
              (num_mul
                 (num_quot
                    (num_sub (Num (of_int now))
                             (Num (of_int (lastRefill (lookup_bucket tb now key)))))
                    (Num 1000))
                 (refillRate (config tb))))
      then now else lastRefill (lookup_bucket tb now key))"
  by (simp add: lookup_bucket_consume refill_def tokensToAdd_def Let_def)

text \<open>
  The claim as stated, that the timestamp advances on every call even when no whole token
  was added, fails: with \<open>capacity = 10\<close> and \<open>refillRate = 1\<close>, a call at 0 ms and one at
  500 ms leave \<open>lastRefill = 0\<close>, and a call at 1000 ms then receives the token accrued
  since 0 ms (8 tokens remain after three calls, not 7).
\<close>

theorem lastRefill_counterexample:
  "tokensToAdd \<lparr> capacity = Num 10, refillRate = Num 1, keyPrefix = Some ''test'' \<rparr> 500
     (lookup_bucket
        (snd (consume 0 ''client1''
           (TokenBucket_new \<lparr> capacity = Num 10, refillRate = Num 1, keyPrefix = Some ''test'' \<rparr>)))
        500 ''client1'') = Num 0 \<and>
   lastRefill (lookup_bucket
     (snd (consume 500 ''client1''
        (snd (consume 0 ''client1''
           (TokenBucket_new \<lparr> capacity = Num 10, refillRate = Num 1, keyPrefix = Some ''test'' \<rparr>)))))
     500 ''client1'') = 0 \<and>
   lastRefill (lookup_bucket
     (snd (consume 500 ''client1''
        (snd (consume 0 ''client1''
           (TokenBucket_new \<lparr> capacity = Num 10, refillRate = Num 1, keyPrefix = Some ''test'' \<rparr>)))))
     500 ''client1'') \<noteq> 500 \<and>
   remainingTokens (fst (consume 1000 ''client1''
     (snd (consume 500 ''client1''
        (snd (consume 0 ''client1''
           (TokenBucket_new \<lparr> capacity = Num 10, refillRate = Num 1, keyPrefix = Some ''test'' \<rparr>)))))))
     = Num 8"
  by (simp add: Let_def consume_def lookup_bucket_def refill_def tokensToAdd_def
        TokenBucket_new_def bucketKey_def num_sub_def js_of_numeral js_of_half
        floor_rat_one_divide_numeral infinity_of_sign_def)

subsection \<open>C9: \<open>getStatus\<close> is a read\<close>

text \<open>
  C9. \<open>getStatus(key)\<close> leaves the bucket object as it found it: the storage (tokens and
  \<open>lastRefill\<close> of every bucket, and the set of keys that have an entry) is unchanged,
  also for a key never seen before, and a second \<open>getStatus(key)\<close> at the same clock
  reading reports the same \<open>remainingTokens\<close>.
\<close>

theorem getStatus_pure:
  "snd (getStatus now key tb) = tb \<and>
   storage (snd (getStatus now key tb)) = storage tb \<and>
   dom (storage (snd (getStatus now key tb))) = dom (storage tb) \<and>
   remainingTokens (fst (getStatus now key (snd (getStatus now key tb)))) =
     remainingTokens (fst (getStatus now key tb))"
  by (simp add: getStatus_def Let_def)

subsection \<open>C10: validation of the configuration\<close>

text \<open>
  C10, as the source has it. \<open>createConfiguredRateLimiter\<close> throws its configuration
  error exactly when, for the configuration merged from the environment and the
  overrides, the test \<open>capacity <= 0 || refillRate <= 0\<close> holds; with both numbers positive
  it returns the middleware built by \<open>createRateLimitMiddleware\<close>, and so it does when
  both are NaN (an environment variable that is no number), because a comparison with NaN
  is false. The constructor of \<open>TokenBucket\<close> and \<open>createRateLimitMiddleware\<close> check
  nothing: for every configuration they return the bucket object, with an empty storage,
  and the middleware that hold this configuration.
\<close>

theorem configured_validation:
  "isl (createConfiguredRateLimiter env overrides) =
     (num_le (capacity (merged_config env overrides)) (Num 0) \<or>
      num_le (refillRate (merged_config env overrides)) (Num 0)) \<and>
   createConfiguredRateLimiter env overrides =
     (if num_le (capacity (merged_config env overrides)) (Num 0) \<or>
         num_le (refillRate (merged_config env overrides)) (Num 0)
      then Inl (Error ''Rate limit capacity and refill rate must be positive numbers'')
      else Inr (createRateLimitMiddleware (merged_config env overrides))) \<and>
   (capacity (merged_config env overrides) = Num c \<and>
    refillRate (merged_config env overrides) = Num r \<longrightarrow>
      isl (createConfiguredRateLimiter env overrides) = (c \<le> 0 \<or> r \<le> 0)) \<and>
   (capacity (merged_config env overrides) = Num c \<and> 0 < c \<and>
    refillRate (merged_config env overrides) = Num r \<and> 0 < r \<longrightarrow>
      createConfiguredRateLimiter env overrides =
        Inr (createRateLimitMiddleware (merged_config env overrides))) \<and>
   (capacity (merged_config env overrides) = NaN \<and>
    refillRate (merged_config env overrides) = NaN \<longrightarrow>
      createConfiguredRateLimiter env overrides =
        Inr (createRateLimitMiddleware (merged_config env overrides))) \<and>
   config (TokenBucket_new cfg) =
     cfg\<lparr> keyPrefix := Some (case keyPrefix cfg of None \<Rightarrow> ''rate_limit'' | Some p \<Rightarrow> p) \<rparr> \<and>
   storage (TokenBucket_new cfg) = Map.empty \<and>
   mw_config (createRateLimitMiddleware rc) = rc \<and>
   mw_bucket (createRateLimitMiddleware rc) =
     TokenBucket_new \<lparr> capacity = capacity rc, refillRate = refillRate rc, keyPrefix = keyPrefix rc \<rparr>"
  by (auto simp: createConfiguredRateLimiter_def createRateLimitMiddleware_def TokenBucket_new_def
        Let_def)

theorem configured_validation_witness:
  "capacity (merged_config \<lparr> env_capacity = Some (Num 5), env_refillRate = Some (Num 2),
                             env_keyPrefix = None \<rparr> None) = Num 5 \<and> (0::rat) < 5 \<and>
   refillRate (merged_config \<lparr> env_capacity = Some (Num 5), env_refillRate = Some (Num 2),
                               env_keyPrefix = None \<rparr> None) = Num 2 \<and> (0::rat) < 2 \<and>
   createConfiguredRateLimiter \<lparr> env_capacity = Some (Num 5), env_refillRate = Some (Num 2),
                                 env_keyPrefix = None \<rparr> None =
     Inr (createRateLimitMiddleware
            (merged_config \<lparr> env_capacity = Some (Num 5), env_refillRate = Some (Num 2),
                             env_keyPrefix = None \<rparr> None)) \<and>
   capacity (merged_config \<lparr> env_capacity = Some NaN, env_refillRate = Some NaN,
                             env_keyPrefix = None \<rparr> None) = NaN \<and>
   refillRate (merged_config \<lparr> env_capacity = Some NaN, env_refillRate = Some NaN,
                               env_keyPrefix = None \<rparr> None) = NaN \<and>
   \<not> isl (createConfiguredRateLimiter \<lparr> env_capacity = Some NaN, env_refillRate = Some NaN,
                                         env_keyPrefix = None \<rparr> None)"
  using configured_validation
          [of "\<lparr> env_capacity = Some (Num 5), env_refillRate = Some (Num 2), env_keyPrefix = None \<rparr>"
              None 5 2]
        configured_validation
          [of "\<lparr> env_capacity = Some NaN, env_refillRate = Some NaN, env_keyPrefix = None \<rparr>"
              None]
  by (simp add: merged_config_def no_overrides_def)

text \<open>
  The claim as stated, for every construction of the rate limiter, fails for the
  constructor of \<open>TokenBucket\<close>: with \<open>capacity = 0\<close> it returns a bucket object, whose
  \<open>consume\<close> refuses the request, where \<open>createConfiguredRateLimiter\<close> throws for the same
  numbers.
\<close>

theorem construction_counterexample:
  "num_le (capacity \<lparr> capacity = Num 0, refillRate = Num 1, keyPrefix = None \<rparr>) (Num 0) \<and>
   storage (TokenBucket_new \<lparr> capacity = Num 0, refillRate = Num 1, keyPrefix = None \<rparr>) = Map.empty \<and>
   fst (consume 0 ''client1'' (TokenBucket_new \<lparr> capacity = Num 0, refillRate = Num 1, keyPrefix = None \<rparr>))
     = \<lparr> remainingTokens = Num 0, retryAfterSeconds = Some (Num 1), resetTime = Num 0,
         allowed = False \<rparr> \<and>
   createConfiguredRateLimiter
     \<lparr> env_capacity = Some (Num 0), env_refillRate = Some (Num 1), env_keyPrefix = None \<rparr> None
     = Inl (Error ''Rate limit capacity and refill rate must be positive numbers'')"
  by (simp add: Let_def consume_def lookup_bucket_def refill_def tokensToAdd_def
        TokenBucket_new_def bucketKey_def num_sub_def js_of_numeral infinity_of_sign_def
        createConfiguredRateLimiter_def merged_config_def no_overrides_def)

section \<open>Properties of the admission middleware\<close>

subsection \<open>C4: fail open\<close>

text \<open>
  C4. If the key generator throws, or the call of \<open>consume\<close> throws, the handler calls
  \<open>next()\<close> and leaves the response object untouched: no status 429, no rejection
  payload, no header. It logs the exception, and the bucket is as it was. This holds in
  particular for the handler built by \<open>createRateLimitMiddleware\<close> when the key generator
  throws on every request.
\<close>

theorem fail_open:
  assumes "mw_keyGenerator mw req = Inl e \<or>
           (\<exists>key. mw_keyGenerator mw req = Inr key \<and> consume_fn now key (mw_bucket mw) = Inl e)"
  shows "rate_limit_handler consume_fn now req res mw =
           (\<lparr> out_req = req, out_res = res, next_called = True, logged = [LogError e] \<rparr>, mw) \<and>
         (mw_keyGenerator mw req = Inl e \<longrightarrow>
            rateLimitMiddleware now req res mw =
              (\<lparr> out_req = req, out_res = res, next_called = True, logged = [LogError e] \<rparr>, mw))"
  using assms by (auto simp: rate_limit_handler_def rateLimitMiddleware_def Let_def)

theorem fail_open_witness:
  "mw_keyGenerator
     (createRateLimitMiddleware
        \<lparr> capacity = Num 1, refillRate = Num 1, keyPrefix = None,
          keyGenerator = Some (\<lambda>req. Inl (Error ''Key generation failed'')),
          skipFailedRequests = None, skipSuccessfulRequests = None, onLimitReached = None \<rparr>)
     \<lparr> headers = Map.empty, remoteAddress = Some ''127.0.0.1'', req_url = ''/api/test'',
       req_method = ''GET'', rateLimit = None \<rparr>
     = Inl (Error ''Key generation failed'') \<and>
   next_called (fst (rateLimitMiddleware 0
     \<lparr> headers = Map.empty, remoteAddress = Some ''127.0.0.1'', req_url = ''/api/test'',
       req_method = ''GET'', rateLimit = None \<rparr>
     \<lparr> res_headers = Map.empty, statusCode = 200, body = None \<rparr>
     (createRateLimitMiddleware
        \<lparr> capacity = Num 1, refillRate = Num 1, keyPrefix = None,
          keyGenerator = Some (\<lambda>req. Inl (Error ''Key generation failed'')),
          skipFailedRequests = None, skipSuccessfulRequests = None, onLimitReached = None \<rparr>))) \<and>
   out_res (fst (rateLimitMiddleware 0
     \<lparr> headers = Map.empty, remoteAddress = Some ''127.0.0.1'', req_url = ''/api/test'',
       req_method = ''GET'', rateLimit = None \<rparr>
     \<lparr> res_headers = Map.empty, statusCode = 200, body = None \<rparr>
     (createRateLimitMiddleware
        \<lparr> capacity = Num 1, refillRate = Num 1, keyPrefix = None,
          keyGenerator = Some (\<lambda>req. Inl (Error ''Key generation failed'')),
          skipFailedRequests = None, skipSuccessfulRequests = None, onLimitReached = None \<rparr>)))
     = \<lparr> res_headers = Map.empty, statusCode = 200, body = None \<rparr>"
  using fail_open
    [of "createRateLimitMiddleware
        \<lparr> capacity = Num 1, refillRate = Num 1, keyPrefix = None,
          keyGenerator = Some (\<lambda>req. Inl (Error ''Key generation failed'')),
          skipFailedRequests = None, skipSuccessfulRequests = None, onLimitReached = None \<rparr>"
        "\<lparr> headers = Map.empty, remoteAddress = Some ''127.0.0.1'', req_url = ''/api/test'',
       req_method = ''GET'', rateLimit = None \<rparr>"
        "Error ''Key generation failed''" "\<lambda>now key tb. Inr (consume now key tb)" 0
        "\<lparr> res_headers = Map.empty, statusCode = 200, body = None \<rparr>"]
  by (simp add: createRateLimitMiddleware_def)

section \<open>Properties of the scalability monitor\<close>

subsection \<open>C8: the request buffer is capped\<close>

text \<open>
  C8. If the buffer holds at most 10000 records before \<open>recordRequest\<close>, it holds at
  most 10000 afterwards. Below the cap the new record is appended. At the cap the append
  makes 10001 records and the buffer is cut to its last 5000: the 5001 oldest records
  are dropped, the newest 4999 old ones and the new record stay, in their order.
\<close>

theorem request_buffer_cap:
  assumes "length (requestMetrics mon) \<le> 10000"
  shows "length (requestMetrics (recordRequest now rtime scode clientId mon)) \<le> 10000 \<and>
         requestMetrics (recordRequest now rtime scode clientId mon) =
           (if length (requestMetrics mon) < 10000
            then requestMetrics mon @
                   [\<lparr> req_timestamp = now, req_responseTime = rtime, req_status = scode \<rparr>]
            else drop 5001 (requestMetrics mon) @
                   [\<lparr> req_timestamp = now, req_responseTime = rtime, req_status = scode \<rparr>]) \<and>
         (length (requestMetrics mon) = 10000 \<longrightarrow>
            length (requestMetrics (recordRequest now rtime scode clientId mon)) = 5000)"
  using assms by (auto simp: recordRequest_def Let_def)

theorem request_buffer_cap_witness:
  "length (requestMetrics
     \<lparr> requestMetrics = replicate 10000 \<lparr> req_timestamp = 0, req_responseTime = 12, req_status = 200 \<rparr>,
       startTime = 0, activeConnections = {} \<rparr>) \<le> 10000 \<and>
   length (requestMetrics
     \<lparr> requestMetrics = replicate 10000 \<lparr> req_timestamp = 0, req_responseTime = 12, req_status = 200 \<rparr>,
       startTime = 0, activeConnections = {} \<rparr>) = 10000 \<and>
   length (requestMetrics (recordRequest 1 5 404 None
     \<lparr> requestMetrics = replicate 10000 \<lparr> req_timestamp = 0, req_responseTime = 12, req_status = 200 \<rparr>,
       startTime = 0, activeConnections = {} \<rparr>)) = 5000"
  using request_buffer_cap
    [of "\<lparr> requestMetrics = replicate 10000 \<lparr> req_timestamp = 0, req_responseTime = 12, req_status = 200 \<rparr>,
          startTime = 0, activeConnections = {} \<rparr>" 1 5 404 None]
  by simp

subsection \<open>C7: an empty window gives the all-zero metrics\<close>

lemma finite_div_nonzero: "b \<noteq> 0 \<Longrightarrow> finite_div a b = Some (a / b)"
  by (simp add: finite_div_def js_div_def)

text \<open>
  C7. \<open>getPerformanceMetrics\<close> never divides by zero: both divisions by a length happen
  only when the window is non-empty, so a result is always produced. When no record lies
  in the trailing minute, the result is the all-zero structure.
\<close>

theorem empty_window_metrics:
  "getPerformanceMetrics now mon \<noteq> None \<and>
   (filter (\<lambda>req. req_timestamp req > now - 60 * 1000) (requestMetrics mon) = [] \<longrightarrow>
      getPerformanceMetrics now mon = Some zero_PerformanceMetrics)"
proof -
  let ?recent = "filter (\<lambda>req. req_timestamp req > now - 60 * 1000) (requestMetrics mon)"
  show ?thesis
  proof (cases "?recent = []")
    case True
    then show ?thesis by (simp add: getPerformanceMetrics_def)
  next
    case False
    then have "rat_of_nat (length ?recent) \<noteq> 0" by simp
    then show ?thesis
      using False by (simp add: getPerformanceMetrics_def Let_def finite_div_nonzero)
  qed
qed

theorem empty_window_metrics_witness:
  "filter (\<lambda>req. req_timestamp req > 100000 - 60 * 1000)
     (requestMetrics
        \<lparr> requestMetrics = [\<lparr> req_timestamp = 0, req_responseTime = 12, req_status = 500 \<rparr>],
          startTime = 0, activeConnections = {} \<rparr>) = [] \<and>
   getPerformanceMetrics 100000
     \<lparr> requestMetrics = [\<lparr> req_timestamp = 0, req_responseTime = 12, req_status = 500 \<rparr>],
       startTime = 0, activeConnections = {} \<rparr>
     = Some \<lparr> responseTime = \<lparr> avg = 0, p95 = 0, p99 = 0 \<rparr>,
              throughput = \<lparr> requestsPerSecond = 0, requestsPerMinute = 0 \<rparr>,
              errors = \<lparr> rate = 0, count = 0 \<rparr> \<rparr>"
  using empty_window_metrics
    [of 100000 "\<lparr> requestMetrics = [\<lparr> req_timestamp = 0, req_responseTime = 12, req_status = 500 \<rparr>],
                 startTime = 0, activeConnections = {} \<rparr>"]
  by (simp add: zero_PerformanceMetrics_def)

subsection \<open>C5: the assessment score\<close>

lemma fst_assess_database:
  "fst (assess_database m v) = fst v -
     (if databaseSize (database m) / (1024 * 1024 * 1024) > 5 then 30
      else if databaseSize (database m) / (1024 * 1024 * 1024) > 1 then 15 else 0)"
  by (cases v) (simp add: assess_database_def Let_def)

lemma fst_assess_response_time:
  "fst (assess_response_time m v) = fst v -
     (if p95 (responseTime (performance m)) > 500 then 25
      else if p95 (responseTime (performance m)) > 200 then 10 else 0)"
  by (cases v) (simp add: assess_response_time_def)

lemma fst_assess_throughput:
  "fst (assess_throughput m v) = fst v -
     (if requestsPerSecond (throughput (performance m)) > 500 then 20
      else if requestsPerSecond (throughput (performance m)) > 100 then 5 else 0)"
  by (cases v) (simp add: assess_throughput_def)

lemma fst_assess_error_rate:
  "fst (assess_error_rate m v) = fst v -
     (if rate (errors (performance m)) > 5 then 25
      else if rate (errors (performance m)) > 1 then 10 else 0)"
  by (cases v) (simp add: assess_error_rate_def)

lemma fst_assess_memory:
  "fst (assess_memory m v) = fst v -
     (if usage (memory (system m)) > 90 then 20
      else if usage (memory (system m)) > 80 then 5 else 0)"
  by (cases v) (simp add: assess_memory_def)

lemma assessment_of_verdict:
  "score (getScalabilityAssessment m) =
     max 0 (fst (assess_memory m (assess_error_rate m (assess_throughput m
              (assess_response_time m (assess_database m (100, [], []))))))) \<and>
   status (getScalabilityAssessment m) =
     (if fst (assess_memory m (assess_error_rate m (assess_throughput m
              (assess_response_time m (assess_database m (100, [], [])))))) \<ge> 80 then green
      else if fst (assess_memory m (assess_error_rate m (assess_throughput m
              (assess_response_time m (assess_database m (100, [], [])))))) \<ge> 60 then yellow
      else red)"
  by (simp add: getScalabilityAssessment_def case_prod_unfold)

lemma deductions_nonneg:
  "0 \<le> (if a > h then dh else if a > l then dl else (0::rat))" if "0 \<le> dh" "0 \<le> dl"
  using that by simp

lemma deductions_bound:
  "0 \<le> d1 \<Longrightarrow> 0 \<le> d2 \<Longrightarrow> 0 \<le> d3 \<Longrightarrow> 0 \<le> d4 \<Longrightarrow> 0 \<le> d5 \<Longrightarrow>
   100 - d1 - d2 - d3 - d4 - d5 \<le> (100::rat)"
  by simp

lemma clamp_thresholds:
  "t \<le> (100::rat) \<Longrightarrow>
   0 \<le> max 0 t \<and> max 0 t \<le> 100 \<and> (80 \<le> max 0 t) = (80 \<le> t) \<and> (60 \<le> max 0 t) = (60 \<le> t)"
  by auto

text \<open>
  C5, as the source has it. The score starts at 100. Each of the five metrics deducts at
  most once: the deduction of the higher threshold if that is exceeded, otherwise the
  deduction of the lower threshold if that is exceeded (database size above 5 GB: 30,
  else above 1 GB: 15; p95 above 500 ms: 25, else above 200 ms: 10; throughput above
  500 rps: 20, else above 100 rps: 5; error rate above 5 percent: 25, else above 1
  percent: 10; memory usage above 90 percent: 20, else above 80 percent: 5). The
  deductions of different metrics add up. The returned score is not below 0 and not
  above 100, and the status is green from 80, yellow from 60 and red below.
\<close>

theorem assessment_score:
  "score (getScalabilityAssessment m) =
     max 0 (100
          - (if databaseSize (database m) / (1024 * 1024 * 1024) > 5 then 30
             else if databaseSize (database m) / (1024 * 1024 * 1024) > 1 then 15 else 0)
          - (if p95 (responseTime (performance m)) > 500 then 25
             else if p95 (responseTime (performance m)) > 200 then 10 else 0)
          - (if requestsPerSecond (throughput (performance m)) > 500 then 20
             else if requestsPerSecond (throughput (performance m)) > 100 then 5 else 0)
          - (if rate (errors (performance m)) > 5 then 25
             else if rate (errors (performance m)) > 1 then 10 else 0)
          - (if usage (memory (system m)) > 90 then 20
             else if usage (memory (system m)) > 80 then 5 else 0)) \<and>
   0 \<le> score (getScalabilityAssessment m) \<and> score (getScalabilityAssessment m) \<le> 100 \<and>
   status (getScalabilityAssessment m) =
     (if score (getScalabilityAssessment m) \<ge> 80 then green
      else if score (getScalabilityAssessment m) \<ge> 60 then yellow else red)"
proof -
  let ?d1 = "if databaseSize (database m) / (1024 * 1024 * 1024) > 5 then 30
             else if databaseSize (database m) / (1024 * 1024 * 1024) > 1 then 15 else (0::rat)"
  let ?d2 = "if p95 (responseTime (performance m)) > 500 then 25
             else if p95 (responseTime (performance m)) > 200 then 10 else (0::rat)"
  let ?d3 = "if requestsPerSecond (throughput (performance m)) > 500 then 20
             else if requestsPerSecond (throughput (performance m)) > 100 then 5 else (0::rat)"
  let ?d4 = "if rate (errors (performance m)) > 5 then 25
             else if rate (errors (performance m)) > 1 then 10 else (0::rat)"
  let ?d5 = "if usage (memory (system m)) > 90 then 20
             else if usage (memory (system m)) > 80 then 5 else (0::rat)"
  let ?t = "100 - ?d1 - ?d2 - ?d3 - ?d4 - ?d5"
  let ?v = "fst (assess_memory m (assess_error_rate m (assess_throughput m
              (assess_response_time m (assess_database m (100, [], []))))))"
  have v: "?v = ?t"
    by (simp only: fst_assess_memory fst_assess_error_rate fst_assess_throughput
          fst_assess_response_time fst_assess_database fst_conv)
  have le: "?t \<le> 100"
    by (rule deductions_bound; rule deductions_nonneg; simp)
  have sc: "score (getScalabilityAssessment m) = max 0 ?t"
    using assessment_of_verdict [of m] by (simp only: v)
  have st: "status (getScalabilityAssessment m) =
              (if ?t \<ge> 80 then green else if ?t \<ge> 60 then yellow else red)"
    using assessment_of_verdict [of m] by (simp only: v)
  from clamp_thresholds [OF le] show ?thesis
    by (simp only: sc st simp_thms)
qed

text \<open>
  The claim as stated lets every rule fire whose threshold is exceeded. For a database of
  6 GB on an otherwise idle system both database rules apply and the stated rule gives
  \<open>100 - 15 - 30 = 55\<close>, status red; the source deducts 30 only and returns 70, yellow.
\<close>

theorem assessment_counterexample:
  "score (getScalabilityAssessment
            (idle_metrics\<lparr> database := zero_DatabaseMetrics\<lparr> databaseSize := 6 * 1024 * 1024 * 1024 \<rparr> \<rparr>))
     = 70 \<and>
   status (getScalabilityAssessment
            (idle_metrics\<lparr> database := zero_DatabaseMetrics\<lparr> databaseSize := 6 * 1024 * 1024 * 1024 \<rparr> \<rparr>))
     = yellow \<and>
   spec_score
            (idle_metrics\<lparr> database := zero_DatabaseMetrics\<lparr> databaseSize := 6 * 1024 * 1024 * 1024 \<rparr> \<rparr>)
     = 55 \<and>
   score (getScalabilityAssessment
            (idle_metrics\<lparr> database := zero_DatabaseMetrics\<lparr> databaseSize := 6 * 1024 * 1024 * 1024 \<rparr> \<rparr>))
     \<noteq> spec_score
            (idle_metrics\<lparr> database := zero_DatabaseMetrics\<lparr> databaseSize := 6 * 1024 * 1024 * 1024 \<rparr> \<rparr>)"
  by (simp add: getScalabilityAssessment_def assess_database_def assess_response_time_def
        assess_throughput_def assess_error_rate_def assess_memory_def spec_score_def
        idle_metrics_def zero_DatabaseMetrics_def zero_PerformanceMetrics_def Let_def)

end
